theory Spec2Isabelle
  imports Main "HOL-Library.AList" "HOL-Library.Sublist" "HOL-Library.List_Lexorder" "HOL-Library.Char_ord"
begin

chapter \<open>pi-team: the coordination daemon's store and its path-safe I/O layer\<close>

text \<open>
  A shallow embedding of \<^verbatim>\<open>src/teamd/store.ts\<close>, \<^verbatim>\<open>src/io/index.ts\<close> and the
  discovery function of \<^verbatim>\<open>src/extension/teamd-client.ts\<close>.

  Conventions of the embedding.
  \<^item> A JavaScript string is a \<^typ>\<open>string\<close> (a list of bytes); a number that the code
    uses as a counter or an instant is an \<^typ>\<open>int\<close> or a \<^typ>\<open>nat\<close>.
  \<^item> An instant is the number of milliseconds since the epoch: the ISO string that
    \<^verbatim>\<open>nowIso()\<close> and \<^verbatim>\<open>toISOString()\<close> write and \<^verbatim>\<open>Date.parse\<close> reads back.
    Every operation receives the reading of the clock as the argument \<open>now\<close>.
  \<^item> A thrown \<^verbatim>\<open>TeamdStoreError\<close> or \<^verbatim>\<open>IoError\<close> is the left summand of the result.
    A store operation returns its result together with the store it leaves behind, since
    an operation can fail after it has written.
  \<^item> The files of the team directory are the fields of the record \<open>TeamdStore\<close>; the
    serial mutation queue runs one operation after the other, which is function
    composition here.
  \<^item> Record fields carry the name of their record as a prefix (\<open>task_status\<close> for
    \<^verbatim>\<open>TaskRecord.status\<close>), because the records of the source share field names.
    The constant field \<^verbatim>\<open>schemaVersion\<close> is left out.
  \<^item> The functions of \<^verbatim>\<open>node:path\<close> are the POSIX ones (\<^verbatim>\<open>sep = "/"\<close>).
\<close>

section \<open>Strings\<close>

text \<open>\<^verbatim>\<open>String.prototype.trim\<close>, on the ASCII white space characters.\<close>

definition isSpace :: "char \<Rightarrow> bool" where
  "isSpace c = (c \<in> set [CHR '' '', CHR 0x09, CHR 0x0A, CHR 0x0B, CHR 0x0C, CHR 0x0D])"

definition trim :: "string \<Rightarrow> string" where
  "trim s = rev (dropWhile isSpace (rev (dropWhile isSpace s)))"

text \<open>\<^verbatim>\<open>[...new Set(xs)]\<close>: the first occurrence of every element, in order.\<close>

definition uniq :: "'a list \<Rightarrow> 'a list" where
  "uniq xs = rev (remdups (rev xs))"

text \<open>\<^verbatim>\<open>xs.filter(Boolean)\<close> on strings keeps the non-empty ones.\<close>

definition filterBoolean :: "string list \<Rightarrow> string list" where
  "filterBoolean xs = filter (\<lambda>s. s \<noteq> []) xs"

text \<open>\<^verbatim>\<open>s.split(c)\<close> for a one-character separator: never the empty list.\<close>

fun splitOn :: "char \<Rightarrow> string \<Rightarrow> string list" where
  "splitOn c [] = [[]]"
| "splitOn c (x # xs) =
     (if x = c then [] # splitOn c xs
      else (case splitOn c xs of [] \<Rightarrow> [[x]] | w # ws \<Rightarrow> (x # w) # ws))"

text \<open>\<^verbatim>\<open>xs.join(s)\<close>.\<close>

fun joinWith :: "string \<Rightarrow> string list \<Rightarrow> string" where
  "joinWith s [] = []"
| "joinWith s [x] = x"
| "joinWith s (x # y # ys) = x @ s @ joinWith s (y # ys)"

definition startsWith :: "string \<Rightarrow> string \<Rightarrow> bool" where
  "startsWith s p = (take (length p) s = p)"

definition endsWith :: "string \<Rightarrow> string \<Rightarrow> bool" where
  "endsWith s p = (length p \<le> length s \<and> drop (length s - length p) s = p)"

text \<open>\<^verbatim>\<open>s.includes(p)\<close>: \<open>p\<close> occurs in \<open>s\<close> as a contiguous run.\<close>

fun includesStr :: "string \<Rightarrow> string \<Rightarrow> bool" where
  "includesStr [] p = (p = [])"
| "includesStr (x # xs) p = (startsWith (x # xs) p \<or> includesStr xs p)"

subsection \<open>Decimal numerals\<close>

definition isDigit :: "char \<Rightarrow> bool" where
  "isDigit c = (48 \<le> (of_char c :: nat) \<and> (of_char c :: nat) \<le> 57)"

definition digitChar :: "nat \<Rightarrow> char" where
  "digitChar d = char_of (48 + d)"

text \<open>\<^verbatim>\<open>String(n)\<close> for a natural number.\<close>

fun showNat :: "nat \<Rightarrow> string" where
  "showNat n = (if n < 10 then [digitChar n] else showNat (n div 10) @ [digitChar (n mod 10)])"

declare showNat.simps [simp del]

text \<open>\<^verbatim>\<open>Number.parseInt(s, 10)\<close> on a string of decimal digits.\<close>

definition parseDigits :: "string \<Rightarrow> nat" where
  "parseDigits s = foldl (\<lambda>acc c. 10 * acc + ((of_char c :: nat) - 48)) 0 s"

text \<open>\<^verbatim>\<open>s.padStart(n, "0")\<close>.\<close>

definition padStart :: "nat \<Rightarrow> string \<Rightarrow> string" where
  "padStart n s = replicate (n - length s) (CHR ''0'') @ s"

text \<open>The character class \<^verbatim>\<open>[a-zA-Z0-9._-]\<close> of the identifiers.\<close>

definition isIdChar :: "char \<Rightarrow> bool" where
  "isIdChar c = (let n = (of_char c :: nat) in
     (97 \<le> n \<and> n \<le> 122) \<or> (65 \<le> n \<and> n \<le> 90) \<or> (48 \<le> n \<and> n \<le> 57)
     \<or> c = CHR ''.'' \<or> c = CHR ''_'' \<or> c = CHR ''-'')"

text \<open>The test \<^verbatim>\<open>/^[a-zA-Z0-9._-]+$/.test(s)\<close>.\<close>

definition matchesId :: "string \<Rightarrow> bool" where
  "matchesId s = (s \<noteq> [] \<and> list_all isIdChar s)"

section \<open>The functions of \<^verbatim>\<open>node:path\<close> (POSIX)\<close>

text \<open>
  \<^verbatim>\<open>normalizeString(path, allowAboveRoot)\<close> of Node's path module walks the segments
  between the slashes: empty segments and \<^verbatim>\<open>.\<close> are dropped, \<^verbatim>\<open>..\<close> removes the segment
  before it, and where there is none (or it is \<^verbatim>\<open>..\<close> itself) it is kept only if the
  path may climb above its start. \<open>res\<close> is the result so far.
\<close>

fun normalizeSegments :: "bool \<Rightarrow> string list \<Rightarrow> string list \<Rightarrow> string list" where
  "normalizeSegments allowAboveRoot res [] = res"
| "normalizeSegments allowAboveRoot res (seg # segs) =
     (if seg = [] \<or> seg = ''.'' then normalizeSegments allowAboveRoot res segs
      else if seg = ''..'' then
        (if res \<noteq> [] \<and> last res \<noteq> ''..'' then normalizeSegments allowAboveRoot (butlast res) segs
         else if allowAboveRoot then normalizeSegments allowAboveRoot (res @ [''..'']) segs
         else normalizeSegments allowAboveRoot res segs)
      else normalizeSegments allowAboveRoot (res @ [seg]) segs)"

definition normalizeString :: "string \<Rightarrow> bool \<Rightarrow> string" where
  "normalizeString path allowAboveRoot =
     joinWith ''/'' (normalizeSegments allowAboveRoot [] (splitOn (CHR ''/'') path))"

definition isAbsolute :: "string \<Rightarrow> bool" where
  "isAbsolute path = (path \<noteq> [] \<and> hd path = CHR ''/'')"

definition normalize :: "string \<Rightarrow> string" where
  "normalize path =
     (if path = [] then ''.''
      else let trailingSeparator = (last path = CHR ''/'');
               p = normalizeString path (\<not> isAbsolute path)
           in if p = [] then (if isAbsolute path then ''/'' else if trailingSeparator then ''./'' else ''.'')
              else (let q = (if trailingSeparator then p @ ''/'' else p)
                    in if isAbsolute path then CHR ''/'' # q else q))"

text \<open>\<^verbatim>\<open>join(a, b)\<close>: the non-empty arguments, joined by a slash and normalized.\<close>

definition join :: "string \<Rightarrow> string \<Rightarrow> string" where
  "join a b =
     (if a = [] \<and> b = [] then ''.''
      else if a = [] then normalize b
      else if b = [] then normalize a
      else normalize (a @ ''/'' @ b))"

text \<open>
  \<^verbatim>\<open>resolve(a, b)\<close>: the arguments are taken from the right until the path is absolute,
  and the working directory \<open>cwd\<close> (an absolute path) is taken when neither is.
\<close>

definition resolve :: "string \<Rightarrow> string \<Rightarrow> string \<Rightarrow> string" where
  "resolve cwd a b =
     (let r1 = (if b = [] then [] else b @ ''/'');
          abs1 = isAbsolute b;
          r2 = (if abs1 \<or> a = [] then r1 else a @ ''/'' @ r1);
          abs2 = (abs1 \<or> isAbsolute a);
          r3 = (if abs2 \<or> cwd = [] then r2 else cwd @ ''/'' @ r2);
          abs3 = (abs2 \<or> isAbsolute cwd);
          resolvedPath = normalizeString r3 (\<not> abs3)
      in if abs3 then CHR ''/'' # resolvedPath
         else if resolvedPath \<noteq> [] then resolvedPath else ''.'')"

section \<open>The path-safe I/O layer (\<^verbatim>\<open>src/io/index.ts\<close>)\<close>

datatype IoErrorCode = PATH_TRAVERSAL | SYMLINK_ESCAPE | INVALID_JSONL_LINE

text \<open>
  What a call of the I/O layer throws: an \<^verbatim>\<open>IoError\<close> with its code, or the error of a
  file system call with its \<^verbatim>\<open>errno\<close> code (\<^verbatim>\<open>"ENOENT"\<close>, \<^verbatim>\<open>"EACCES"\<close>, ...).
\<close>

datatype IoFailure = IoError IoErrorCode | ErrnoException string

text \<open>
  The file system as \<^verbatim>\<open>safeJoin\<close> sees it: \<^verbatim>\<open>fs.realpath\<close>, \<^verbatim>\<open>fs.lstat\<close> (only
  \<^verbatim>\<open>isSymbolicLink()\<close> of its result is read) and the working directory of the process.
  A failing call gives its \<^verbatim>\<open>errno\<close> code.
\<close>

record FileSystem =
  realpath :: "string \<Rightarrow> string + string"
  lstat_isSymbolicLink :: "string \<Rightarrow> string + bool"
  cwd :: string

definition isWithinRoot :: "string \<Rightarrow> string \<Rightarrow> bool" where
  "isWithinRoot rootPath targetPath =
     (targetPath = rootPath \<or> startsWith targetPath (rootPath @ ''/''))"

definition assertNoTraversal :: "string \<Rightarrow> IoFailure + unit" where
  "assertNoTraversal relative =
     (if isAbsolute relative then Inl (IoError PATH_TRAVERSAL)
      else let normalized = normalize relative
           in if normalized = ''..'' \<or> startsWith normalized ''../''
                 \<or> includesStr normalized ''/../'' \<or> endsWith normalized ''/..''
              then Inl (IoError PATH_TRAVERSAL)
              else Inr ())"

text \<open>
  The loop of \<^verbatim>\<open>safeJoin\<close> over the segments of the normalized path. \<^verbatim>\<open>break\<close> on
  \<^verbatim>\<open>ENOENT\<close> ends the walk without an error; every other error of \<^verbatim>\<open>lstat\<close> or
  \<^verbatim>\<open>realpath\<close> is thrown again, and so is the \<^verbatim>\<open>SYMLINK_ESCAPE\<close> error, which is raised
  inside the same \<^verbatim>\<open>try\<close>.
\<close>

fun checkSegments :: "FileSystem \<Rightarrow> string \<Rightarrow> string \<Rightarrow> string list \<Rightarrow> IoFailure + unit" where
  "checkSegments fs rootRealPath current [] = Inr ()"
| "checkSegments fs rootRealPath current (part # parts) =
     (let next = join current part
      in case lstat_isSymbolicLink fs next of
           Inl code \<Rightarrow> if code = ''ENOENT'' then Inr () else Inl (ErrnoException code)
         | Inr isSymbolicLink \<Rightarrow>
             if isSymbolicLink then
               (case realpath fs next of
                  Inl code \<Rightarrow> if code = ''ENOENT'' then Inr () else Inl (ErrnoException code)
                | Inr linkTarget \<Rightarrow>
                    if \<not> isWithinRoot rootRealPath linkTarget then Inl (IoError SYMLINK_ESCAPE)
                    else checkSegments fs rootRealPath linkTarget parts)
             else checkSegments fs rootRealPath next parts)"

definition safeJoin :: "FileSystem \<Rightarrow> string \<Rightarrow> string \<Rightarrow> IoFailure + string" where
  "safeJoin fs teamRoot relative =
     (case assertNoTraversal relative of
        Inl e \<Rightarrow> Inl e
      | Inr _ \<Rightarrow>
         (case realpath fs teamRoot of
            Inl code \<Rightarrow> Inl (ErrnoException code)
          | Inr rootRealPath \<Rightarrow>
              let normalized = normalize relative;
                  joined = resolve (cwd fs) rootRealPath normalized
              in if \<not> isWithinRoot rootRealPath joined then Inl (IoError PATH_TRAVERSAL)
                 else (case checkSegments fs rootRealPath rootRealPath
                              (filterBoolean (splitOn (CHR ''/'') normalized)) of
                         Inl e \<Rightarrow> Inl e
                       | Inr _ \<Rightarrow> Inr joined)))"

text \<open>
  The paths that the loop of \<^verbatim>\<open>safeJoin\<close> passes to \<^verbatim>\<open>lstat\<close>, in order: the walk
  stops after the first one that ends it.
\<close>

fun examinedSegments :: "FileSystem \<Rightarrow> string \<Rightarrow> string \<Rightarrow> string list \<Rightarrow> string list" where
  "examinedSegments fs rootRealPath current [] = []"
| "examinedSegments fs rootRealPath current (part # parts) =
     (let next = join current part
      in next #
         (case lstat_isSymbolicLink fs next of
            Inl code \<Rightarrow> []
          | Inr isSymbolicLink \<Rightarrow>
              if isSymbolicLink then
                (case realpath fs next of
                   Inl code \<Rightarrow> []
                 | Inr linkTarget \<Rightarrow>
                     if \<not> isWithinRoot rootRealPath linkTarget then []
                     else examinedSegments fs rootRealPath linkTarget parts)
              else examinedSegments fs rootRealPath next parts))"

subsection \<open>The tolerant reader of line-delimited JSON\<close>

text \<open>
  The loop of \<^verbatim>\<open>readJsonlSafe\<close> over the lines: an empty line is skipped, a line that
  \<^verbatim>\<open>JSON.parse\<close> rejects fails the call. \<^verbatim>\<open>JSON.parse\<close> is the argument \<open>parse\<close>,
  \<open>None\<close> where it throws.
\<close>

fun parseLines :: "(string \<Rightarrow> 'j option) \<Rightarrow> string list \<Rightarrow> IoFailure + 'j list" where
  "parseLines parse [] = Inr []"
| "parseLines parse (line # rest) =
     (if line = [] then parseLines parse rest
      else (case parse line of
              None \<Rightarrow> Inl (IoError INVALID_JSONL_LINE)
            | Some v \<Rightarrow> (case parseLines parse rest of
                          Inl e \<Rightarrow> Inl e
                        | Inr vs \<Rightarrow> Inr (v # vs))))"

text \<open>
  \<open>readFile\<close> is the outcome of \<^verbatim>\<open>fs.readFile(filePath, "utf8")\<close>: the \<^verbatim>\<open>errno\<close> code
  of its failure, or the contents of the file.
\<close>

definition readJsonlSafe :: "(string \<Rightarrow> 'j option) \<Rightarrow> string + string \<Rightarrow> IoFailure + 'j list" where
  "readJsonlSafe parse readFile =
     (case readFile of
        Inl code \<Rightarrow> if code = ''ENOENT'' then Inr [] else Inl (ErrnoException code)
      | Inr raw \<Rightarrow>
          let hasTrailingNewline = endsWith raw [CHR 0x0A];
              lines = splitOn (CHR 0x0A) raw
          in parseLines parse (if \<not> hasTrailingNewline then butlast lines else lines))"

section \<open>The data model of the store (\<^verbatim>\<open>src/teamd/store.ts\<close>)\<close>

datatype TaskStatus = pending | blocked | in_progress | completed | failed | canceled

record TaskLease =
  lease_holder :: string
  lease_epoch :: int
  lease_expiresAt :: int

record TaskTimestamps =
  createdAt :: int
  startedAt :: "int option"
  completedAt :: "int option"
  failedAt :: "int option"

record TaskRecord =
  task_id :: string
  task_title :: string
  task_description :: string
  task_status :: TaskStatus
  task_owner :: "string option"
  task_deps :: "string list"
  task_resources :: "string list"
  task_lease :: "TaskLease option"
  task_epoch :: int
  task_timestamps :: TaskTimestamps

record TeamAgent =
  agent_id :: string
  agent_role :: string
  agent_model :: "string option"

record TeamBudget =
  budget_maxTokens :: "int option"
  budget_hardLimit :: "bool option"

record TeamRecord =
  team_teamId :: string
  team_agents :: "TeamAgent list"
  team_budget :: "TeamBudget option"

record ThreadRecord =
  thread_id :: string
  thread_title :: string
  thread_participants :: "string list"
  thread_taskId :: "string option"
  thread_createdAt :: int
  thread_updatedAt :: int

record ThreadMessageRecord =
  message_id :: string
  message_threadId :: string
  message_from :: string
  message_body :: string
  message_ts :: int

record InboxEventRecord =
  event_id :: string
  event_cursor :: nat
  event_type :: string
  event_teamId :: string
  event_agentId :: string
  event_taskId :: "string option"
  event_threadId :: "string option"
  event_actor :: "string option"
  event_summary :: "string option"
  event_content :: "string option"
  event_ts :: int

record InboxState =
  nextCursor :: nat
  events :: "InboxEventRecord list"

text \<open>
  A line of \<^verbatim>\<open>audit/events.jsonl\<close>. Its random identifier and its opaque \<^verbatim>\<open>data\<close>
  are left out; \<open>audit_refs\<close> is the object \<^verbatim>\<open>refs\<close> as a list of its entries.
\<close>

record AuditEvent =
  audit_actor :: string
  audit_type :: string
  audit_refs :: "(string \<times> string) list"
  audit_ts :: int

text \<open>
  The store: the two options it is constructed with that the operations read, the team
  directory that \<^verbatim>\<open>resolveTeamDir\<close> caches, and the files of that directory.
  \<^item> \<open>teamFile\<close> is \<^verbatim>\<open>team.json\<close>, \<open>None\<close> when the file is missing;
  \<^item> \<open>taskFiles\<close> are the files \<^verbatim>\<open>tasks/<id>.json\<close>, each under the identifier of the
    record it holds;
  \<^item> \<open>createTaskIdempotency\<close> are the entries of \<^verbatim>\<open>idempotency/create-task.json\<close>,
    a key with the \<^verbatim>\<open>taskId\<close> and the \<^verbatim>\<open>createdAt\<close> recorded for it;
  \<^item> \<open>threadIndex\<close> is \<^verbatim>\<open>threads/index.json\<close>, and \<open>threadFiles\<close> are the files
    \<^verbatim>\<open>threads/<id>.jsonl\<close> as the lists of the messages appended to them;
  \<^item> \<open>inboxFiles\<close> are the files \<^verbatim>\<open>inboxes/<agentId>.json\<close>;
  \<^item> \<open>auditLog\<close> is \<^verbatim>\<open>audit/events.jsonl\<close>.
\<close>

record TeamdStore =
  teamId :: string
  defaultLeaseTtlMs :: int
  teamDirPath :: string
  teamFile :: "TeamRecord option"
  taskFiles :: "TaskRecord list"
  createTaskIdempotency :: "(string \<times> string \<times> int) list"
  threadIndex :: "ThreadRecord list"
  threadFiles :: "(string \<times> ThreadMessageRecord list) list"
  inboxFiles :: "(string \<times> InboxState) list"
  auditLog :: "AuditEvent list"

text \<open>
  What a store operation throws: a \<^verbatim>\<open>TeamdStoreError\<close> with its status code and its
  code, or the \<^verbatim>\<open>RangeError\<close> of \<^verbatim>\<open>toISOString()\<close> on an instant that no
  \<^verbatim>\<open>Date\<close> can hold.
\<close>

datatype StoreFailure = TeamdStoreError nat string | RangeError

type_synonym 'a StoreResult = "(StoreFailure + 'a) \<times> TeamdStore"

record CreateTaskInput =
  input_title :: string
  input_description :: "string option"
  input_deps :: "string list option"
  input_resources :: "string list option"

record StartThreadInput =
  start_title :: "string option"
  start_participants :: "string list option"
  start_taskId :: "string option"
  start_agentId :: "string option"

text \<open>The event that \<^verbatim>\<open>appendInboxEvent\<close> is called with.\<close>

record InboxEventInput =
  in_type :: string
  in_taskId :: "string option"
  in_threadId :: "string option"
  in_actor :: "string option"
  in_summary :: "string option"
  in_content :: "string option"

section \<open>Helpers of the store\<close>

text \<open>
  \<^verbatim>\<open>normalizePathPrefix\<close>: normalize, turn backslashes into slashes, drop one leading
  \<^verbatim>\<open>./\<close>, then all leading and all trailing slashes.
\<close>

definition dropLeadingDotSlash :: "string \<Rightarrow> string" where
  "dropLeadingDotSlash s = (if startsWith s ''./'' then drop 2 s else s)"

definition dropLeadingSlashes :: "string \<Rightarrow> string" where
  "dropLeadingSlashes s = dropWhile (\<lambda>c. c = CHR ''/'') s"

definition dropTrailingSlashes :: "string \<Rightarrow> string" where
  "dropTrailingSlashes s = rev (dropWhile (\<lambda>c. c = CHR ''/'') (rev s))"

definition normalizePathPrefix :: "string \<Rightarrow> string" where
  "normalizePathPrefix pathValue =
     dropTrailingSlashes (dropLeadingSlashes (dropLeadingDotSlash
       (map (\<lambda>c. if c = CHR 0x5C then CHR ''/'' else c) (normalize pathValue))))"

definition resourceMatchesPath :: "string \<Rightarrow> string \<Rightarrow> bool" where
  "resourceMatchesPath resource target =
     (if resource = [] then True
      else target = resource \<or> startsWith target (resource @ ''/''))"

text \<open>
  \<^verbatim>\<open>parseTaskNumericId\<close>: the number after \<^verbatim>\<open>task-\<close> when the identifier matches
  \<^verbatim>\<open>/^task-(\d+)$/\<close>, and 0 otherwise.
\<close>

definition parseNumericId :: "string \<Rightarrow> string \<Rightarrow> nat" where
  "parseNumericId pre s =
     (let digits = drop (length pre) s
      in if startsWith s pre \<and> digits \<noteq> [] \<and> list_all isDigit digits
         then parseDigits digits else 0)"

definition parseTaskNumericId :: "string \<Rightarrow> nat" where
  "parseTaskNumericId taskId = parseNumericId ''task-'' taskId"

definition buildTaskId :: "nat \<Rightarrow> string" where
  "buildTaskId taskNumber = ''task-'' @ padStart 4 (showNat taskNumber)"

definition parseThreadNumericId :: "string \<Rightarrow> nat" where
  "parseThreadNumericId threadId = parseNumericId ''thread-'' threadId"

definition buildThreadId :: "nat \<Rightarrow> string" where
  "buildThreadId threadNumber = ''thread-'' @ padStart 4 (showNat threadNumber)"

definition ensureAgentId :: "string \<Rightarrow> StoreFailure + string" where
  "ensureAgentId agentId =
     (if \<not> matchesId agentId then Inl (TeamdStoreError 400 ''INVALID_AGENT_ID'') else Inr agentId)"

definition buildDefaultTeam :: "string \<Rightarrow> TeamRecord" where
  "buildDefaultTeam tid = \<lparr>team_teamId = tid, team_agents = [], team_budget = None\<rparr>"

text \<open>\<^verbatim>\<open>isLeaseExpired\<close>, with the reading of the clock as an argument.\<close>

definition isLeaseExpired :: "int \<Rightarrow> TaskLease \<Rightarrow> bool" where
  "isLeaseExpired now lease = (now \<ge> lease_expiresAt lease)"

text \<open>
  \<^verbatim>\<open>new Date(t).toISOString()\<close> throws a \<^verbatim>\<open>RangeError\<close> unless \<open>t\<close> is a time value,
  at most 8.64e15 milliseconds from the epoch.
\<close>

definition isTimeValue :: "int \<Rightarrow> bool" where
  "isTimeValue t = (\<bar>t\<bar> \<le> 8640000000000000)"

text \<open>
  \<^verbatim>\<open>assertTeamId\<close>: the store serves the one team it was constructed with.
\<close>

definition assertTeamId :: "TeamdStore \<Rightarrow> string \<Rightarrow> StoreFailure + unit" where
  "assertTeamId st tid =
     (if tid \<noteq> teamId st then Inl (TeamdStoreError 404 ''TEAM_NOT_FOUND'') else Inr ())"

subsection \<open>Reading and writing the files\<close>

text \<open>
  \<^verbatim>\<open>readTask\<close> reads the file \<^verbatim>\<open>tasks/<taskId>.json\<close>, \<open>None\<close> when there is none. The
  identifier is taken as the name of a file of the directory \<^verbatim>\<open>tasks\<close>; the lexical
  and symbolic link checks of \<^verbatim>\<open>safeJoin\<close> on the paths inside the team directory and
  the failures of the disk are outside the model.
\<close>

definition readTask :: "TeamdStore \<Rightarrow> string \<Rightarrow> TaskRecord option" where
  "readTask st taskId = find (\<lambda>task. task_id task = taskId) (taskFiles st)"

definition loadTaskOrThrow :: "TeamdStore \<Rightarrow> string \<Rightarrow> StoreFailure + TaskRecord" where
  "loadTaskOrThrow st taskId =
     (case readTask st taskId of
        None \<Rightarrow> Inl (TeamdStoreError 404 ''TASK_NOT_FOUND'')
      | Some task \<Rightarrow> Inr task)"

definition writeTask :: "TaskRecord \<Rightarrow> TeamdStore \<Rightarrow> TeamdStore" where
  "writeTask task st =
     st\<lparr>taskFiles :=
          (if \<exists>t \<in> set (taskFiles st). task_id t = task_id task
           then map (\<lambda>t. if task_id t = task_id task then task else t) (taskFiles st)
           else taskFiles st @ [task])\<rparr>"

definition listTasksUnsafe :: "TeamdStore \<Rightarrow> TaskRecord list" where
  "listTasksUnsafe st = taskFiles st"

definition appendAuditEvent :: "string \<Rightarrow> string \<Rightarrow> (string \<times> string) list \<Rightarrow> int \<Rightarrow> TeamdStore \<Rightarrow> TeamdStore" where
  "appendAuditEvent actor type refs now st =
     st\<lparr>auditLog := auditLog st @
          [\<lparr>audit_actor = actor, audit_type = type, audit_refs = refs, audit_ts = now\<rparr>]\<rparr>"

text \<open>
  \<^verbatim>\<open>readInbox(agentId, true)\<close>: the inbox of the agent, written empty first when the
  file is missing.
\<close>

definition readInbox :: "string \<Rightarrow> TeamdStore \<Rightarrow> InboxState \<times> TeamdStore" where
  "readInbox agentId st =
     (case map_of (inboxFiles st) agentId of
        Some state \<Rightarrow> (state, st)
      | None \<Rightarrow>
          (let initialState = \<lparr>nextCursor = 0, events = []\<rparr>
           in (initialState, st\<lparr>inboxFiles := AList.update agentId initialState (inboxFiles st)\<rparr>)))"

definition writeInbox :: "string \<Rightarrow> InboxState \<Rightarrow> TeamdStore \<Rightarrow> TeamdStore" where
  "writeInbox agentId state st = st\<lparr>inboxFiles := AList.update agentId state (inboxFiles st)\<rparr>"

definition listInboxAgents :: "TeamdStore \<Rightarrow> string list" where
  "listInboxAgents st = filterBoolean (map fst (inboxFiles st))"

definition broadcastRecipients :: "TeamdStore \<Rightarrow> string list" where
  "broadcastRecipients st =
     uniq ((case teamFile st of
              None \<Rightarrow> []
            | Some team \<Rightarrow> filterBoolean (map agent_id (team_agents team)))
           @ listInboxAgents st)"

text \<open>
  The loop of \<^verbatim>\<open>appendInboxEvent\<close>: an invalid recipient throws, and the inboxes
  written before it stay written.
\<close>

fun appendInboxLoop :: "string list \<Rightarrow> InboxEventInput \<Rightarrow> int \<Rightarrow> TeamdStore \<Rightarrow> unit StoreResult" where
  "appendInboxLoop [] event now st = (Inr (), st)"
| "appendInboxLoop (rawAgentId # rest) event now st =
     (case ensureAgentId rawAgentId of
        Inl e \<Rightarrow> (Inl e, st)
      | Inr agentId \<Rightarrow>
          (let (state, st1) = readInbox agentId st;
               cursor = nextCursor state + 1;
               inboxEvent = \<lparr>event_id = ''inbox-'' @ padStart 8 (showNat cursor),
                              event_cursor = cursor,
                              event_type = in_type event,
                              event_teamId = teamId st,
                              event_agentId = agentId,
                              event_taskId = in_taskId event,
                              event_threadId = in_threadId event,
                              event_actor = in_actor event,
                              event_summary = in_summary event,
                              event_content = in_content event,
                              event_ts = now\<rparr>;
               st2 = writeInbox agentId
                       \<lparr>nextCursor = cursor, events = events state @ [inboxEvent]\<rparr> st1
           in appendInboxLoop rest event now st2))"

definition appendInboxEvent :: "string list \<Rightarrow> InboxEventInput \<Rightarrow> int \<Rightarrow> TeamdStore \<Rightarrow> unit StoreResult" where
  "appendInboxEvent recipients event now st =
     appendInboxLoop (uniq (filterBoolean (map trim recipients))) event now st"

section \<open>The task operations\<close>

text \<open>
  \<^verbatim>\<open>createTask(teamId, input, idempotencyKey)\<close>. The key is \<open>None\<close> when the argument
  is \<^verbatim>\<open>undefined\<close>; an empty key is falsy and counts as no key. The result is the task
  and the flag \<^verbatim>\<open>created\<close>.
\<close>

definition createTask ::
  "string \<Rightarrow> CreateTaskInput \<Rightarrow> string option \<Rightarrow> int \<Rightarrow> TeamdStore \<Rightarrow> (TaskRecord \<times> bool) StoreResult" where
  "createTask tid input idempotencyKey now st =
     (case assertTeamId st tid of
        Inl e \<Rightarrow> (Inl e, st)
      | Inr _ \<Rightarrow>
     (let title = trim (input_title input)
      in if title = [] then (Inl (TeamdStoreError 400 ''INVALID_TASK''), st)
      else
       (let deps = uniq (filterBoolean (map trim (case input_deps input of None \<Rightarrow> [] | Some ds \<Rightarrow> ds)));
            resources = uniq (filterBoolean (map normalizePathPrefix
                          (case input_resources input of None \<Rightarrow> [] | Some rs \<Rightarrow> rs)));
            idempotency = createTaskIdempotency st;
            existingTask =
              (case idempotencyKey of
                 None \<Rightarrow> None
               | Some key \<Rightarrow>
                   if key = [] then None
                   else (case map_of idempotency key of
                           None \<Rightarrow> None
                         | Some (existingTaskId, _) \<Rightarrow> readTask st existingTaskId))
        in case existingTask of
             Some task \<Rightarrow> (Inr (task, False), st)
           | None \<Rightarrow>
              (let existingTasks = listTasksUnsafe st;
                   nextTaskNumber =
                     foldl (\<lambda>maxValue task. max maxValue (parseTaskNumericId (task_id task))) 0 existingTasks + 1;
                   taskId = buildTaskId nextTaskNumber;
                   areDepsComplete =
                     list_all (\<lambda>depId.
                        case find (\<lambda>task. task_id task = depId) existingTasks of
                          None \<Rightarrow> False
                        | Some dep \<Rightarrow> task_status dep = completed) deps;
                   task = \<lparr>task_id = taskId,
                           task_title = title,
                           task_description =
                             (case input_description input of None \<Rightarrow> [] | Some d \<Rightarrow> trim d),
                           task_status = (if deps \<noteq> [] \<and> \<not> areDepsComplete then blocked else pending),
                           task_owner = None,
                           task_deps = deps,
                           task_resources = resources,
                           task_lease = None,
                           task_epoch = 0,
                           task_timestamps = \<lparr>createdAt = now, startedAt = None,
                                              completedAt = None, failedAt = None\<rparr>\<rparr>;
                   st1 = writeTask task st;
                   st2 = (case idempotencyKey of
                            None \<Rightarrow> st1
                          | Some key \<Rightarrow>
                              if key = [] then st1
                              else st1\<lparr>createTaskIdempotency :=
                                         AList.update key (taskId, now) idempotency\<rparr>);
                   st3 = appendAuditEvent ''teamd'' ''task_created'' [(''taskId'', taskId)] now st2
               in (Inr (task, True), st3)))))"

text \<open>\<^verbatim>\<open>listTasks\<close>: the tasks by identifier (\<^verbatim>\<open>localeCompare\<close> is taken as the
  order of the bytes, which it is on the minted identifiers of one length).\<close>

definition listTasks :: "string \<Rightarrow> TeamdStore \<Rightarrow> (TaskRecord list) StoreResult" where
  "listTasks tid st =
     (case assertTeamId st tid of
        Inl e \<Rightarrow> (Inl e, st)
      | Inr _ \<Rightarrow> (Inr (sort_key task_id (listTasksUnsafe st)), st))"

definition getTask :: "string \<Rightarrow> string \<Rightarrow> TeamdStore \<Rightarrow> TaskRecord StoreResult" where
  "getTask tid taskId st =
     (case assertTeamId st tid of
        Inl e \<Rightarrow> (Inl e, st)
      | Inr _ \<Rightarrow> (loadTaskOrThrow st taskId, st))"

text \<open>
  \<^verbatim>\<open>claimTask(teamId, {taskId, agentId, ttlMs})\<close>; \<open>ttlMs\<close> is \<open>None\<close> when the field is
  \<^verbatim>\<open>undefined\<close>. The result is the task and its lease.
\<close>

definition claimTask ::
  "string \<Rightarrow> string \<Rightarrow> string \<Rightarrow> int option \<Rightarrow> int \<Rightarrow> TeamdStore \<Rightarrow> (TaskRecord \<times> TaskLease) StoreResult" where
  "claimTask tid taskId agentId ttlMs now st =
     (case assertTeamId st tid of
        Inl e \<Rightarrow> (Inl e, st)
      | Inr _ \<Rightarrow>
     (case loadTaskOrThrow st taskId of
        Inl e \<Rightarrow> (Inl e, st)
      | Inr loaded \<Rightarrow>
         (let task =
                (if task_status loaded = in_progress
                    \<and> (case task_lease loaded of None \<Rightarrow> False | Some l \<Rightarrow> isLeaseExpired now l)
                 then loaded\<lparr>task_status := pending, task_owner := None, task_lease := None\<rparr>
                 else loaded)
          in if task_status task \<noteq> pending
             then (Inl (TeamdStoreError 409 ''TASK_NOT_CLAIMABLE''), st)
             else
              (let ttl = (case ttlMs of None \<Rightarrow> defaultLeaseTtlMs st | Some t \<Rightarrow> t);
                   nextEpoch = task_epoch task + 1
               in if \<not> isTimeValue (now + ttl) then (Inl RangeError, st)
               else
                (let lease = \<lparr>lease_holder = agentId, lease_epoch = nextEpoch,
                              lease_expiresAt = now + ttl\<rparr>;
                     claimed = task\<lparr>task_status := in_progress,
                                    task_owner := Some agentId,
                                    task_lease := Some lease,
                                    task_epoch := nextEpoch,
                                    task_timestamps := (task_timestamps task)
                                      \<lparr>startedAt := (case startedAt (task_timestamps task) of
                                                       None \<Rightarrow> Some now
                                                     | Some t \<Rightarrow> Some t)\<rparr>\<rparr>;
                     st1 = writeTask claimed st;
                     st2 = appendAuditEvent agentId ''task_claimed'' [(''taskId'', task_id claimed)] now st1
                 in case appendInboxEvent (broadcastRecipients st2)
                           \<lparr>in_type = ''task_claimed'', in_taskId = Some (task_id claimed),
                            in_threadId = None, in_actor = Some agentId,
                            in_summary = Some (''Task '' @ task_id claimed @ '' claimed by '' @ agentId),
                            in_content = None\<rparr> now st2 of
                      (Inl e, st3) \<Rightarrow> (Inl e, st3)
                    | (Inr _, st3) \<Rightarrow> (Inr (claimed, lease), st3))))))"

definition renewTask ::
  "string \<Rightarrow> string \<Rightarrow> string \<Rightarrow> int \<Rightarrow> int option \<Rightarrow> int \<Rightarrow> TeamdStore \<Rightarrow> (TaskRecord \<times> TaskLease) StoreResult" where
  "renewTask tid taskId agentId epoch ttlMs now st =
     (case assertTeamId st tid of
        Inl e \<Rightarrow> (Inl e, st)
      | Inr _ \<Rightarrow>
     (case loadTaskOrThrow st taskId of
        Inl e \<Rightarrow> (Inl e, st)
      | Inr task \<Rightarrow>
         (case task_lease task of
            None \<Rightarrow> (Inl (TeamdStoreError 409 ''TASK_NOT_IN_PROGRESS''), st)
          | Some lease \<Rightarrow>
              if task_status task \<noteq> in_progress
              then (Inl (TeamdStoreError 409 ''TASK_NOT_IN_PROGRESS''), st)
              else if isLeaseExpired now lease
              then (Inl (TeamdStoreError 403 ''LEASE_EXPIRED''), st)
              else if lease_holder lease \<noteq> agentId
              then (Inl (TeamdStoreError 403 ''LEASE_HOLDER_MISMATCH''), st)
              else if lease_epoch lease \<noteq> epoch
              then (Inl (TeamdStoreError 409 ''EPOCH_MISMATCH''), st)
              else
               (let ttl = (case ttlMs of None \<Rightarrow> defaultLeaseTtlMs st | Some t \<Rightarrow> t)
                in if \<not> isTimeValue (now + ttl) then (Inl RangeError, st)
                else
                 (let renewedLease = lease\<lparr>lease_expiresAt := now + ttl\<rparr>;
                      renewed = task\<lparr>task_lease := Some renewedLease\<rparr>;
                      st1 = writeTask renewed st;
                      st2 = appendAuditEvent agentId ''task_renewed'' [(''taskId'', task_id renewed)] now st1
                  in (Inr (renewed, renewedLease), st2))))))"

text \<open>
  \<^verbatim>\<open>finalizeTask(input, finalStatus)\<close>, the common part of \<^verbatim>\<open>completeTask\<close> and
  \<^verbatim>\<open>failTask\<close>; \<open>finalStatus\<close> is \<open>completed\<close> or \<open>failed\<close>.
\<close>

definition finalizeTask ::
  "string \<Rightarrow> string \<Rightarrow> int \<Rightarrow> TaskStatus \<Rightarrow> int \<Rightarrow> TeamdStore \<Rightarrow> TaskRecord StoreResult" where
  "finalizeTask taskId agentId epoch finalStatus now st =
     (case loadTaskOrThrow st taskId of
        Inl e \<Rightarrow> (Inl e, st)
      | Inr task \<Rightarrow>
         (case task_lease task of
            None \<Rightarrow> (Inl (TeamdStoreError 409 ''TASK_NOT_IN_PROGRESS''), st)
          | Some lease \<Rightarrow>
              if task_status task \<noteq> in_progress
              then (Inl (TeamdStoreError 409 ''TASK_NOT_IN_PROGRESS''), st)
              else if isLeaseExpired now lease
              then (Inl (TeamdStoreError 403 ''LEASE_EXPIRED''), st)
              else if lease_holder lease \<noteq> agentId
              then (Inl (TeamdStoreError 403 ''LEASE_HOLDER_MISMATCH''), st)
              else if lease_epoch lease \<noteq> epoch
              then (Inl (TeamdStoreError 409 ''EPOCH_MISMATCH''), st)
              else
               (let ts = task_timestamps task;
                    ts1 = (if finalStatus = completed then ts\<lparr>completedAt := Some now\<rparr> else ts);
                    ts2 = (if finalStatus = failed then ts1\<lparr>failedAt := Some now\<rparr> else ts1);
                    final = task\<lparr>task_status := finalStatus, task_lease := None,
                                 task_timestamps := ts2\<rparr>;
                    eventType = (if finalStatus = completed then ''task_completed'' else ''task_failed'');
                    statusWord = (if finalStatus = completed then ''completed'' else ''failed'');
                    st1 = writeTask final st;
                    st2 = appendAuditEvent agentId eventType [(''taskId'', task_id final)] now st1
                in case appendInboxEvent (broadcastRecipients st2)
                          \<lparr>in_type = eventType, in_taskId = Some (task_id final),
                           in_threadId = None, in_actor = Some agentId,
                           in_summary = Some (''Task '' @ task_id final @ '' '' @ statusWord
                                              @ '' by '' @ agentId),
                           in_content = None\<rparr> now st2 of
                     (Inl e, st3) \<Rightarrow> (Inl e, st3)
                   | (Inr _, st3) \<Rightarrow> (Inr final, st3))))"

text \<open>
  The loop of \<^verbatim>\<open>unlockDependents\<close> over the tasks read at its start; \<open>completedIds\<close>
  is \<^verbatim>\<open>completedTaskSet\<close>, computed before the loop.
\<close>

fun unlockLoop :: "string \<Rightarrow> string \<Rightarrow> int \<Rightarrow> string list \<Rightarrow> TaskRecord list \<Rightarrow> TeamdStore \<Rightarrow> TeamdStore" where
  "unlockLoop completedTaskId actor now completedIds [] st = st"
| "unlockLoop completedTaskId actor now completedIds (task # rest) st =
     (if task_status task \<noteq> blocked then unlockLoop completedTaskId actor now completedIds rest st
      else if completedTaskId \<notin> set (task_deps task)
      then unlockLoop completedTaskId actor now completedIds rest st
      else if \<not> list_all (\<lambda>depId. depId \<in> set completedIds) (task_deps task)
      then unlockLoop completedTaskId actor now completedIds rest st
      else
       (let unblocked = task\<lparr>task_status := pending\<rparr>;
            st1 = writeTask unblocked st;
            st2 = appendAuditEvent actor ''task_unblocked'' [(''taskId'', task_id unblocked)] now st1
        in unlockLoop completedTaskId actor now completedIds rest st2))"

definition unlockDependents :: "string \<Rightarrow> string \<Rightarrow> int \<Rightarrow> TeamdStore \<Rightarrow> TeamdStore" where
  "unlockDependents completedTaskId actor now st =
     (let tasks = listTasksUnsafe st;
          completedIds = map task_id (filter (\<lambda>task. task_status task = completed) tasks)
      in unlockLoop completedTaskId actor now completedIds tasks st)"

definition completeTask ::
  "string \<Rightarrow> string \<Rightarrow> string \<Rightarrow> int \<Rightarrow> int \<Rightarrow> TeamdStore \<Rightarrow> TaskRecord StoreResult" where
  "completeTask tid taskId agentId epoch now st =
     (case assertTeamId st tid of
        Inl e \<Rightarrow> (Inl e, st)
      | Inr _ \<Rightarrow>
         (case finalizeTask taskId agentId epoch completed now st of
            (Inl e, st1) \<Rightarrow> (Inl e, st1)
          | (Inr task, st1) \<Rightarrow> (Inr task, unlockDependents (task_id task) agentId now st1)))"

definition failTask ::
  "string \<Rightarrow> string \<Rightarrow> string \<Rightarrow> int \<Rightarrow> int \<Rightarrow> TeamdStore \<Rightarrow> TaskRecord StoreResult" where
  "failTask tid taskId agentId epoch now st =
     (case assertTeamId st tid of
        Inl e \<Rightarrow> (Inl e, st)
      | Inr _ \<Rightarrow> finalizeTask taskId agentId epoch failed now st)"

section \<open>Sequences of operations\<close>

text \<open>
  \<^verbatim>\<open>TeamdStore.create\<close> on a fresh workspace: \<^verbatim>\<open>initialize\<close> makes the directories and
  writes the default team.
\<close>

definition createStore :: "string \<Rightarrow> int \<Rightarrow> string \<Rightarrow> TeamdStore" where
  "createStore tid ttl dir =
     \<lparr>teamId = tid, defaultLeaseTtlMs = ttl, teamDirPath = dir,
      teamFile = Some (buildDefaultTeam tid), taskFiles = [], createTaskIdempotency = [],
      threadIndex = [], threadFiles = [], inboxFiles = [], auditLog = []\<rparr>"

text \<open>
  A call of one of the task operations with its arguments (the last one is the reading
  of the clock), and \<^verbatim>\<open>unlockDependents\<close>, which \<^verbatim>\<open>completeTask\<close> runs.
\<close>

datatype TaskOp =
    CreateTask string CreateTaskInput "string option" int
  | ClaimTask string string string "int option" int
  | RenewTask string string string int "int option" int
  | CompleteTask string string string int int
  | FailTask string string string int int
  | UnlockDependents string string int

fun applyOp :: "TaskOp \<Rightarrow> TeamdStore \<Rightarrow> TeamdStore" where
  "applyOp (CreateTask tid input key now) st = snd (createTask tid input key now st)"
| "applyOp (ClaimTask tid taskId agentId ttlMs now) st = snd (claimTask tid taskId agentId ttlMs now st)"
| "applyOp (RenewTask tid taskId agentId epoch ttlMs now) st = snd (renewTask tid taskId agentId epoch ttlMs now st)"
| "applyOp (CompleteTask tid taskId agentId epoch now) st = snd (completeTask tid taskId agentId epoch now st)"
| "applyOp (FailTask tid taskId agentId epoch now) st = snd (failTask tid taskId agentId epoch now st)"
| "applyOp (UnlockDependents completedTaskId actor now) st = unlockDependents completedTaskId actor now st"

text \<open>The serial mutation queue: the operations take effect one after the other.\<close>

definition runOps :: "TaskOp list \<Rightarrow> TeamdStore \<Rightarrow> TeamdStore" where
  "runOps ops st = foldl (\<lambda>s op. applyOp op s) st ops"

text \<open>
  The store of the examples: the team \<^verbatim>\<open>alpha\<close> with a default lease of five minutes;
  at instant 1000 a task is created on \<^verbatim>\<open>src/io/\<close> under the idempotency key
  \<^verbatim>\<open>k1\<close>, and at instant 2000 \<^verbatim>\<open>worker_a\<close> claims it for 25 milliseconds.
\<close>

definition exampleInput :: CreateTaskInput where
  "exampleInput = \<lparr>input_title = ''write io'', input_description = None,
                    input_deps = None, input_resources = Some [''src/io/'']\<rparr>"

definition exampleOps :: "TaskOp list" where
  "exampleOps = [CreateTask ''alpha'' exampleInput (Some ''k1'') 1000,
                 ClaimTask ''alpha'' ''task-0001'' ''worker_a'' (Some 25) 2000]"


definition exampleStore :: TeamdStore where
  "exampleStore = runOps exampleOps (createStore ''alpha'' 300000 ''/ws/alpha'')"

definition exampleTask :: TaskRecord where
  "exampleTask =
     \<lparr>task_id = ''task-0001'', task_title = ''write io'', task_description = [],
      task_status = in_progress, task_owner = Some ''worker_a'', task_deps = [],
      task_resources = [''src/io''],
      task_lease = Some \<lparr>lease_holder = ''worker_a'', lease_epoch = 1, lease_expiresAt = 2025\<rparr>,
      task_epoch = 1,
      task_timestamps = \<lparr>createdAt = 1000, startedAt = Some 2000,
                         completedAt = None, failedAt = None\<rparr>\<rparr>"

text \<open>
  The second example: a task without dependencies and a task that depends on it are
  created; \<^verbatim>\<open>worker_a\<close> claims the first one at instant 2000 with the default lease.
\<close>

definition dependentInput :: CreateTaskInput where
  "dependentInput = \<lparr>input_title = ''use io'', input_description = None,
                      input_deps = Some [''task-0001''], input_resources = None\<rparr>"

definition exampleBlocked :: TeamdStore where
  "exampleBlocked =
     runOps [CreateTask ''alpha'' exampleInput None 1000,
             CreateTask ''alpha'' dependentInput None 1100,
             ClaimTask ''alpha'' ''task-0001'' ''worker_a'' None 2000]
       (createStore ''alpha'' 300000 ''/ws/alpha'')"

section \<open>The invariant of the lease\<close>

text \<open>
  The invariant of a task record that the data model states: there is a lease exactly
  when the task is in progress, and the owner and the epoch of the task are the holder
  and the epoch of its lease.
\<close>

definition leaseInvariant :: "TaskRecord \<Rightarrow> bool" where
  "leaseInvariant task =
     ((task_lease task \<noteq> None) = (task_status task = in_progress)
      \<and> (case task_lease task of
            None \<Rightarrow> True
          | Some lease \<Rightarrow> task_owner task = Some (lease_holder lease)
                          \<and> task_epoch task = lease_epoch lease))"

definition storeInvariant :: "TeamdStore \<Rightarrow> bool" where
  "storeInvariant st = (\<forall>task \<in> set (taskFiles st). leaseInvariant task)"

text \<open>
  The order of two stores in which no task file has disappeared and no epoch has
  decreased.
\<close>

definition epochOrder :: "TeamdStore \<Rightarrow> TeamdStore \<Rightarrow> bool" where
  "epochOrder st st' =
     (\<forall>taskId task. readTask st taskId = Some task \<longrightarrow>
        (\<exists>task'. readTask st' taskId = Some task' \<and> task_epoch task \<le> task_epoch task'))"

text \<open>The resources of the tasks on disk are not empty strings.\<close>

definition resourcesInvariant :: "TeamdStore \<Rightarrow> bool" where
  "resourcesInvariant st = (\<forall>task \<in> set (taskFiles st). [] \<notin> set (task_resources task))"

section \<open>The team operations\<close>

definition readTeam :: "TeamdStore \<Rightarrow> TeamRecord option" where
  "readTeam st = teamFile st"

definition createTeam :: "TeamRecord \<Rightarrow> int \<Rightarrow> TeamdStore \<Rightarrow> TeamRecord StoreResult" where
  "createTeam team now st =
     (case assertTeamId st (team_teamId team) of
        Inl e \<Rightarrow> (Inl e, st)
      | Inr _ \<Rightarrow>
         (case readTeam st of
            Some existing \<Rightarrow> (Inr existing, st)
          | None \<Rightarrow>
              (let st1 = st\<lparr>teamFile := Some team\<rparr>;
                   st2 = appendAuditEvent ''teamd'' ''team_created'' [(''teamId'', teamId st)] now st1
               in (Inr team, st2))))"

definition listTeams :: "TeamdStore \<Rightarrow> TeamRecord list" where
  "listTeams st = (case readTeam st of None \<Rightarrow> [] | Some team \<Rightarrow> [team])"

definition getTeam :: "string \<Rightarrow> TeamdStore \<Rightarrow> StoreFailure + TeamRecord" where
  "getTeam tid st =
     (case assertTeamId st tid of
        Inl e \<Rightarrow> Inl e
      | Inr _ \<Rightarrow>
         (case readTeam st of
            None \<Rightarrow> Inl (TeamdStoreError 404 ''TEAM_NOT_FOUND'')
          | Some team \<Rightarrow> Inr team))"

section \<open>The thread operations\<close>

text \<open>\<^verbatim>\<open>s.toLowerCase()\<close>, on the ASCII letters.\<close>

definition toLowerCase :: "string \<Rightarrow> string" where
  "toLowerCase s =
     map (\<lambda>c. let n = (of_char c :: nat) in if 65 \<le> n \<and> n \<le> 90 then char_of (n + 32) else c) s"

text \<open>
  An assignment to a field of the object that \<^verbatim>\<open>index.threads.find(...)\<close> returned
  changes the first thread of the index with that identifier.
\<close>

fun updateFirst :: "('a \<Rightarrow> bool) \<Rightarrow> ('a \<Rightarrow> 'a) \<Rightarrow> 'a list \<Rightarrow> 'a list" where
  "updateFirst P f [] = []"
| "updateFirst P f (x # xs) = (if P x then f x # xs else x # updateFirst P f xs)"

definition startThread :: "string \<Rightarrow> StartThreadInput \<Rightarrow> int \<Rightarrow> TeamdStore \<Rightarrow> ThreadRecord StoreResult" where
  "startThread tid input now st =
     (case assertTeamId st tid of
        Inl e \<Rightarrow> (Inl e, st)
      | Inr _ \<Rightarrow>
     (let title = (case start_title input of
                     None \<Rightarrow> ''Thread''
                   | Some t \<Rightarrow> if trim t = [] then ''Thread'' else trim t);
          listed = uniq (filterBoolean (map trim
                     (case start_participants input of None \<Rightarrow> [] | Some ps \<Rightarrow> ps)));
          agent = (case start_agentId input of None \<Rightarrow> [] | Some a \<Rightarrow> trim a);
          participants = (if agent \<noteq> [] then listed @ [agent] else listed);
          uniqueParticipants = uniq participants
      in if \<not> list_all matchesId uniqueParticipants
         then (Inl (TeamdStoreError 400 ''INVALID_AGENT_ID''), st)
         else
          (let nextThreadNumber =
                 foldl (\<lambda>maxValue thread. max maxValue (parseThreadNumericId (thread_id thread)))
                   0 (threadIndex st) + 1;
               threadId = buildThreadId nextThreadNumber;
               linked = (case start_taskId input of None \<Rightarrow> [] | Some t \<Rightarrow> trim t)
           in case (if linked \<noteq> []
                    then (case loadTaskOrThrow st linked of Inl e \<Rightarrow> Some e | Inr _ \<Rightarrow> None)
                    else None) of
                Some e \<Rightarrow> (Inl e, st)
              | None \<Rightarrow>
                 (let thread = \<lparr>thread_id = threadId, thread_title = title,
                                 thread_participants = uniqueParticipants,
                                 thread_taskId = (if linked \<noteq> [] then Some linked else None),
                                 thread_createdAt = now, thread_updatedAt = now\<rparr>;
                      st1 = st\<lparr>threadIndex := threadIndex st @ [thread]\<rparr>;
                      st2 = appendAuditEvent (if agent \<noteq> [] then agent else ''teamd'')
                              ''thread_started'' [(''threadId'', threadId)] now st1
                  in (Inr thread, st2)))))"

text \<open>
  \<^verbatim>\<open>postThreadMessage(teamId, {threadId, agentId, message})\<close>; \<open>uuid\<close> is the value of
  \<^verbatim>\<open>randomUUID()\<close>.
\<close>

definition postThreadMessage ::
  "string \<Rightarrow> string \<Rightarrow> string \<Rightarrow> string \<Rightarrow> string \<Rightarrow> int \<Rightarrow> TeamdStore \<Rightarrow> ThreadMessageRecord StoreResult" where
  "postThreadMessage tid threadId agentId message uuid now st =
     (case assertTeamId st tid of
        Inl e \<Rightarrow> (Inl e, st)
      | Inr _ \<Rightarrow>
     (case ensureAgentId (trim agentId) of
        Inl e \<Rightarrow> (Inl e, st)
      | Inr author \<Rightarrow>
         (let body = trim message
          in if body = [] then (Inl (TeamdStoreError 400 ''INVALID_THREAD_MESSAGE''), st)
             else
              (case find (\<lambda>item. thread_id item = threadId) (threadIndex st) of
                 None \<Rightarrow> (Inl (TeamdStoreError 404 ''THREAD_NOT_FOUND''), st)
               | Some thread \<Rightarrow>
                  (let msg = \<lparr>message_id = ''msg-'' @ uuid, message_threadId = thread_id thread,
                              message_from = author, message_body = body, message_ts = now\<rparr>;
                       lines = (case map_of (threadFiles st) (thread_id thread) of
                                  None \<Rightarrow> [] | Some ms \<Rightarrow> ms);
                       st1 = st\<lparr>threadFiles :=
                                  AList.update (thread_id thread) (lines @ [msg]) (threadFiles st)\<rparr>;
                       st2 = st1\<lparr>threadIndex :=
                                   updateFirst (\<lambda>item. thread_id item = threadId)
                                     (\<lambda>item. item\<lparr>thread_updatedAt := now\<rparr>) (threadIndex st1)\<rparr>;
                       st3 = appendAuditEvent author ''thread_message''
                               [(''threadId'', thread_id thread)] now st2;
                       recipients = filter (\<lambda>participant. participant \<noteq> author)
                                      (thread_participants thread)
                   in case appendInboxEvent recipients
                             \<lparr>in_type = ''thread_message'', in_taskId = None,
                              in_threadId = Some (thread_id thread), in_actor = Some author,
                              in_summary = Some (take 120 body), in_content = Some body\<rparr> now st3 of
                        (Inl e, st4) \<Rightarrow> (Inl e, st4)
                      | (Inr _, st4) \<Rightarrow> (Inr msg, st4))))))"

text \<open>
  \<^verbatim>\<open>readThreadTail(teamId, threadId, limit)\<close>, with \<open>limit\<close> a whole number, \<open>None\<close> for
  the default. The file of the thread is the list of the messages appended to it.
\<close>

definition readThreadTail ::
  "string \<Rightarrow> string \<Rightarrow> int option \<Rightarrow> TeamdStore \<Rightarrow> StoreFailure + (ThreadRecord \<times> ThreadMessageRecord list)" where
  "readThreadTail tid threadId limit st =
     (case assertTeamId st tid of
        Inl e \<Rightarrow> Inl e
      | Inr _ \<Rightarrow>
         (case find (\<lambda>item. thread_id item = threadId) (threadIndex st) of
            None \<Rightarrow> Inl (TeamdStoreError 404 ''THREAD_NOT_FOUND'')
          | Some thread \<Rightarrow>
              (let records = (case map_of (threadFiles st) (thread_id thread) of
                                None \<Rightarrow> [] | Some ms \<Rightarrow> ms);
                   lim = (case limit of None \<Rightarrow> 20 | Some l \<Rightarrow> l);
                   normalizedLimit = (if lim > 0 then min lim 200 else 20)
               in Inr (thread, drop (length records - nat normalizedLimit) records))))"

definition searchThreads :: "string \<Rightarrow> string \<Rightarrow> TeamdStore \<Rightarrow> StoreFailure + ThreadRecord list" where
  "searchThreads tid query st =
     (case assertTeamId st tid of
        Inl e \<Rightarrow> Inl e
      | Inr _ \<Rightarrow>
         (let needle = toLowerCase (trim query)
          in if needle = [] then Inr (threadIndex st)
             else Inr (filter (\<lambda>thread.
                    includesStr (toLowerCase (thread_title thread)) needle
                    \<or> (case thread_taskId thread of
                          None \<Rightarrow> False
                        | Some t \<Rightarrow> includesStr (toLowerCase t) needle)
                    \<or> list_ex (\<lambda>participant. includesStr (toLowerCase participant) needle)
                         (thread_participants thread))
                  (threadIndex st))))"

definition linkThreadToTask ::
  "string \<Rightarrow> string \<Rightarrow> string \<Rightarrow> int \<Rightarrow> TeamdStore \<Rightarrow> ThreadRecord StoreResult" where
  "linkThreadToTask tid threadId taskId now st =
     (case assertTeamId st tid of
        Inl e \<Rightarrow> (Inl e, st)
      | Inr _ \<Rightarrow>
     (case loadTaskOrThrow st taskId of
        Inl e \<Rightarrow> (Inl e, st)
      | Inr _ \<Rightarrow>
         (case find (\<lambda>item. thread_id item = threadId) (threadIndex st) of
            None \<Rightarrow> (Inl (TeamdStoreError 404 ''THREAD_NOT_FOUND''), st)
          | Some thread \<Rightarrow>
              (let linked = thread\<lparr>thread_taskId := Some taskId, thread_updatedAt := now\<rparr>;
                   st1 = st\<lparr>threadIndex :=
                              updateFirst (\<lambda>item. thread_id item = threadId)
                                (\<lambda>item. linked) (threadIndex st)\<rparr>;
                   st2 = appendAuditEvent ''teamd'' ''thread_linked_task''
                           [(''threadId'', thread_id thread), (''taskId'', taskId)] now st1
               in (Inr linked, st2)))))"

section \<open>The inbox\<close>

text \<open>
  \<^verbatim>\<open>Number.parseInt(s, 10)\<close>: white space, a sign, and the longest run of digits;
  \<open>None\<close> is \<^verbatim>\<open>NaN\<close>.
\<close>

definition parseIntJs :: "string \<Rightarrow> int option" where
  "parseIntJs s =
     (let t = dropWhile isSpace s;
          negative = (t \<noteq> [] \<and> hd t = CHR ''-'');
          u = (if t \<noteq> [] \<and> (hd t = CHR ''-'' \<or> hd t = CHR ''+'') then tl t else t);
          digits = takeWhile isDigit u
      in if digits = [] then None
         else Some (if negative then - int (parseDigits digits) else int (parseDigits digits)))"

text \<open>
  \<^verbatim>\<open>fetchInbox(teamId, agentId, since)\<close>: the events after the cursor \<open>since\<close> and the
  cursor to ask with next. Reading the inbox of an agent that has none writes an empty one.
\<close>

definition fetchInbox ::
  "string \<Rightarrow> string \<Rightarrow> string option \<Rightarrow> TeamdStore \<Rightarrow> (InboxEventRecord list \<times> string) StoreResult" where
  "fetchInbox tid agentId since st =
     (case assertTeamId st tid of
        Inl e \<Rightarrow> (Inl e, st)
      | Inr _ \<Rightarrow>
     (case ensureAgentId (trim agentId) of
        Inl e \<Rightarrow> (Inl e, st)
      | Inr normalizedAgentId \<Rightarrow>
         (let (state, st1) = readInbox normalizedAgentId st;
              sinceCursor = parseIntJs (case since of None \<Rightarrow> ''0'' | Some s \<Rightarrow> s);
              cursorFloor = (case sinceCursor of
                               None \<Rightarrow> 0
                             | Some n \<Rightarrow> if n > 0 then nat n else 0);
              found = filter (\<lambda>event. event_cursor event > cursorFloor) (events state);
              nextSince = showNat (if found \<noteq> [] then event_cursor (last found)
                                   else max cursorFloor (nextCursor state))
          in (Inr (found, nextSince), st1))))"

section \<open>The write permission check\<close>

record CanWriteResult =
  allow :: bool
  reason :: string

text \<open>
  \<^verbatim>\<open>canWrite(teamId, agentId, requestedPath)\<close>. The file system that \<^verbatim>\<open>safeJoin\<close>
  inspects is the argument \<open>fs\<close>; the team directory is the one that
  \<^verbatim>\<open>resolveTeamDir\<close> cached when the store was initialized. Every failure of
  \<^verbatim>\<open>safeJoin\<close> is caught. The loops over the tasks and their resources return at the
  first match.
\<close>

definition canWrite ::
  "FileSystem \<Rightarrow> string \<Rightarrow> string \<Rightarrow> string \<Rightarrow> int \<Rightarrow> TeamdStore \<Rightarrow> StoreFailure + CanWriteResult" where
  "canWrite fs tid agentId requestedPath now st =
     (case assertTeamId st tid of
        Inl e \<Rightarrow> Inl e
      | Inr _ \<Rightarrow>
         (let safePath = normalizePathPrefix requestedPath
          in if safePath = [] then Inr \<lparr>allow = False, reason = ''invalid_path''\<rparr>
             else
              (case safeJoin fs (teamDirPath st) safePath of
                 Inl _ \<Rightarrow> Inr \<lparr>allow = False, reason = ''path_traversal_denied''\<rparr>
               | Inr _ \<Rightarrow>
                   if list_ex (\<lambda>task.
                        task_status task = in_progress
                        \<and> (case task_lease task of
                              None \<Rightarrow> False
                            | Some lease \<Rightarrow>
                                lease_holder lease = agentId
                                \<and> \<not> lease_expiresAt lease \<le> now
                                \<and> list_ex (\<lambda>resource. resourceMatchesPath resource safePath)
                                     (task_resources task)))
                      (listTasksUnsafe st)
                   then Inr \<lparr>allow = True, reason = ''lease_active_for_resource''\<rparr>
                   else Inr \<lparr>allow = False, reason = ''no_active_lease_for_path''\<rparr>)))"

section \<open>Discovery in the guard client (\<^verbatim>\<open>src/extension/teamd-client.ts\<close>)\<close>

text \<open>
  The environment snapshot of \<^verbatim>\<open>createTeamdClient\<close>: a variable is \<open>None\<close> when it is
  not set. \<^verbatim>\<open>PI_TEAM_WORKSPACE_ROOT\<close> and \<^verbatim>\<open>USER\<close> are the variables that the tests of
  the client set besides the five that \<^verbatim>\<open>discover\<close> reads.
\<close>

record Env =
  PI_TEAMD_URL :: "string option"
  PI_TEAMD_TOKEN :: "string option"
  PI_TEAM_ID :: "string option"
  PI_AGENT_ID :: "string option"
  PI_TEAMD_TOKEN_FILE :: "string option"
  PI_TEAM_WORKSPACE_ROOT :: "string option"
  USER :: "string option"

record DiscoveryData =
  discovery_teamId :: string
  discovery_agentId :: string
  discovery_baseUrl :: string
  discovery_token :: string

record TokenFileData =
  file_token :: "string option"
  file_url :: "string option"

text \<open>\<^verbatim>\<open>asString\<close> on a value that is a string or \<^verbatim>\<open>undefined\<close>.\<close>

definition asString :: "string option \<Rightarrow> string" where
  "asString v = (case v of None \<Rightarrow> [] | Some s \<Rightarrow> trim s)"

definition normalizeUrl :: "string \<Rightarrow> string" where
  "normalizeUrl input = dropTrailingSlashes input"

text \<open>\<^verbatim>\<open>raw.split(/\r?\n/u)\<close>.\<close>

fun splitLines :: "string \<Rightarrow> string list" where
  "splitLines [] = [[]]"
| "splitLines [c] = (if c = CHR 0x0A then [[], []] else [[c]])"
| "splitLines (c # d # cs) =
     (if c = CHR 0x0D \<and> d = CHR 0x0A then [] # splitLines cs
      else if c = CHR 0x0A then [] # splitLines (d # cs)
      else (case splitLines (d # cs) of [] \<Rightarrow> [[c]] | w # ws \<Rightarrow> (c # w) # ws))"

text \<open>
  \<^verbatim>\<open>parseTokenFile(tokenFilePath, reader)\<close>. \<open>reader\<close> gives the contents of a file, or
  \<open>None\<close> when reading throws, and then \<^verbatim>\<open>parseTokenFile\<close> throws: the result is \<open>None\<close>.
  \<open>jsonFields\<close> stands for \<^verbatim>\<open>JSON.parse\<close> on a text that starts with a brace: \<open>None\<close>
  when it throws, and otherwise the fields \<^verbatim>\<open>token\<close> and \<^verbatim>\<open>url\<close> of the object, each
  \<open>None\<close> unless it is a string.
\<close>

definition parseTokenFile ::
  "(string \<Rightarrow> string option) \<Rightarrow> (string \<Rightarrow> (string option \<times> string option) option)
     \<Rightarrow> string \<Rightarrow> TokenFileData option" where
  "parseTokenFile reader jsonFields tokenFilePath =
     (case reader tokenFilePath of
        None \<Rightarrow> None
      | Some contents \<Rightarrow>
          (let raw = trim contents
           in if raw = [] then Some \<lparr>file_token = None, file_url = None\<rparr>
              else if startsWith raw ''{'' then
                (case jsonFields raw of
                   None \<Rightarrow> Some \<lparr>file_token = None, file_url = None\<rparr>
                 | Some (token, url) \<Rightarrow>
                     Some \<lparr>file_token = Some (asString token), file_url = Some (asString url)\<rparr>)
              else
                (case find (\<lambda>line. line \<noteq> []) (map trim (splitLines raw)) of
                   None \<Rightarrow> Some \<lparr>file_token = None, file_url = None\<rparr>
                 | Some token \<Rightarrow> Some \<lparr>file_token = Some token, file_url = None\<rparr>)))"

text \<open>\<^verbatim>\<open>discover(requireAgent)\<close>; the result is \<open>None\<close> for \<^verbatim>\<open>null\<close>.\<close>

definition discover ::
  "Env \<Rightarrow> (string \<Rightarrow> string option) \<Rightarrow> (string \<Rightarrow> (string option \<times> string option) option)
     \<Rightarrow> bool \<Rightarrow> DiscoveryData option" where
  "discover env reader jsonFields requireAgent =
     (let url0 = asString (PI_TEAMD_URL env);
          token0 = asString (PI_TEAMD_TOKEN env);
          teamId = asString (PI_TEAM_ID env);
          agentId = asString (PI_AGENT_ID env);
          tokenFile = asString (PI_TEAMD_TOKEN_FILE env);
          filled =
            (if (token0 = [] \<or> url0 = []) \<and> tokenFile \<noteq> [] then
               (case parseTokenFile reader jsonFields tokenFile of
                  None \<Rightarrow> None
                | Some fromFile \<Rightarrow>
                    Some (if url0 \<noteq> [] then url0
                          else (case file_url fromFile of None \<Rightarrow> [] | Some u \<Rightarrow> u),
                          if token0 \<noteq> [] then token0
                          else (case file_token fromFile of None \<Rightarrow> [] | Some t \<Rightarrow> t)))
             else Some (url0, token0))
      in case filled of
           None \<Rightarrow> None
         | Some (url, token) \<Rightarrow>
             if url = [] \<or> token = [] \<or> teamId = [] then None
             else if requireAgent \<and> agentId = [] then None
             else Some \<lparr>discovery_teamId = teamId, discovery_agentId = agentId,
                        discovery_baseUrl = normalizeUrl url, discovery_token = token\<rparr>)"

text \<open>
  \<^verbatim>\<open>canWrite(path)\<close> of the client up to the request: without a discovery it answers
  by itself, and \<open>None\<close> stands for the request to \<^verbatim>\<open>/v1/can-write\<close> that it makes
  otherwise.
\<close>

definition clientCanWrite ::
  "Env \<Rightarrow> (string \<Rightarrow> string option) \<Rightarrow> (string \<Rightarrow> (string option \<times> string option) option)
     \<Rightarrow> CanWriteResult option" where
  "clientCanWrite env reader jsonFields =
     (case discover env reader jsonFields True of
        None \<Rightarrow> Some \<lparr>allow = False, reason = ''missing_teamd_discovery''\<rparr>
      | Some discovery \<Rightarrow> None)"

section \<open>A file system for the examples\<close>

text \<open>
  The team directory \<^verbatim>\<open>/ws/alpha\<close> with the directories \<^verbatim>\<open>src\<close> and \<^verbatim>\<open>src/io\<close> and
  the symbolic link \<^verbatim>\<open>evil\<close> to \<^verbatim>\<open>/outside\<close>; nothing else exists below it.
\<close>

definition exampleFs :: FileSystem where
  "exampleFs =
     \<lparr>realpath = (\<lambda>p. if p = ''/ws/alpha/evil'' then Inr ''/outside'' else Inr p),
      lstat_isSymbolicLink =
        (\<lambda>p. if p = ''/ws/alpha/evil'' then Inr True
              else if p = ''/ws/alpha/src'' \<or> p = ''/ws/alpha/src/io'' then Inr False
              else Inl ''ENOENT''),
      cwd = ''/''\<rparr>"

section \<open>\<^verbatim>\<open>JSON.parse\<close>\<close>

text \<open>
  The value that \<^verbatim>\<open>JSON.parse\<close> returns, as its syntax tree: a number is its numeral
  and a string is the text between its quotes, escapes as they are written.
\<close>

datatype Json =
    JNull
  | JBool bool
  | JNumber string
  | JString string
  | JArray "Json list"
  | JObject "(string \<times> Json) list"

definition isJsonSpace :: "char \<Rightarrow> bool" where
  "isJsonSpace c = (c = CHR '' '' \<or> c = CHR 0x09 \<or> c = CHR 0x0A \<or> c = CHR 0x0D)"

definition skipSpace :: "string \<Rightarrow> string" where
  "skipSpace s = dropWhile isJsonSpace s"

definition isHexDigit :: "char \<Rightarrow> bool" where
  "isHexDigit c = (let n = (of_char c :: nat) in
     (48 \<le> n \<and> n \<le> 57) \<or> (97 \<le> n \<and> n \<le> 102) \<or> (65 \<le> n \<and> n \<le> 70))"

text \<open>
  The rest of a string after its opening quote: the text up to the closing quote and
  what follows it. A control character, an unknown escape and a missing closing quote
  are errors. The four digits of a \<^verbatim>\<open>\u\<close> escape are looked at when the escape is met
  and then read as the ordinary characters that they are.
\<close>

fun lexString :: "string \<Rightarrow> (string \<times> string) option" where
  "lexString [] = None"
| "lexString [c] = (if c = CHR 0x22 then Some ([], []) else None)"
| "lexString (c # e # r) =
     (if c = CHR 0x22 then Some ([], e # r)
      else if c = CHR 0x5C then
        (if e \<in> set [CHR 0x22, CHR 0x5C, CHR ''/'', CHR ''b'', CHR ''f'', CHR ''n'', CHR ''r'', CHR ''t'']
            \<or> (e = CHR ''u'' \<and> 4 \<le> length r \<and> list_all isHexDigit (take 4 r))
         then map_option (\<lambda>(s, t). (c # e # s, t)) (lexString r)
         else None)
      else if (of_char c :: nat) < 32 then None
      else map_option (\<lambda>(s, t). (c # s, t)) (lexString (e # r)))"

text \<open>
  A numeral: an optional minus sign, a zero or a run of digits that does not start with
  a zero, an optional fraction and an optional exponent.
\<close>

definition lexNumber :: "string \<Rightarrow> (string \<times> string) option" where
  "lexNumber s =
     (let sign = (if s \<noteq> [] \<and> hd s = CHR ''-'' then ''-'' else []);
          s1 = drop (length sign) s
      in if s1 = [] \<or> \<not> isDigit (hd s1) then None
         else
          (let whole = (if hd s1 = CHR ''0'' then ''0'' else takeWhile isDigit s1);
               s2 = drop (length whole) s1;
               hasFraction = (s2 \<noteq> [] \<and> hd s2 = CHR ''.'');
               fraction = (if hasFraction then CHR ''.'' # takeWhile isDigit (tl s2) else []);
               s3 = drop (length fraction) s2;
               hasExponent = (s3 \<noteq> [] \<and> (hd s3 = CHR ''e'' \<or> hd s3 = CHR ''E''));
               mark = (if hasExponent then take 1 s3 else []);
               s4 = drop (length mark) s3;
               expSign = (if hasExponent \<and> s4 \<noteq> [] \<and> (hd s4 = CHR ''+'' \<or> hd s4 = CHR ''-'')
                          then take 1 s4 else []);
               s5 = drop (length expSign) s4;
               expDigits = (if hasExponent then takeWhile isDigit s5 else []);
               s6 = drop (length expDigits) s5
           in if hasFraction \<and> length fraction < 2 then None
              else if hasExponent \<and> expDigits = [] then None
              else Some (sign @ whole @ fraction @ mark @ expSign @ expDigits, s6)))"

text \<open>
  The parser of values, of the elements of an array after its opening bracket and of the
  members of an object after its opening brace. Each returns what it has read and the
  rest of the text. The first argument bounds the number of nested calls.
\<close>

fun parseValue :: "nat \<Rightarrow> string \<Rightarrow> (Json \<times> string) option"
  and parseElements :: "nat \<Rightarrow> string \<Rightarrow> (Json list \<times> string) option"
  and parseMembers :: "nat \<Rightarrow> string \<Rightarrow> ((string \<times> Json) list \<times> string) option" where
  "parseValue 0 s = None"
| "parseValue (Suc n) s =
     (let t = skipSpace s
      in if t = [] then None
         else if hd t = CHR ''{'' then
           (if skipSpace (tl t) \<noteq> [] \<and> hd (skipSpace (tl t)) = CHR ''}''
            then Some (JObject [], tl (skipSpace (tl t)))
            else map_option (\<lambda>(members, r). (JObject members, r)) (parseMembers n (tl t)))
         else if hd t = CHR ''['' then
           (if skipSpace (tl t) \<noteq> [] \<and> hd (skipSpace (tl t)) = CHR '']''
            then Some (JArray [], tl (skipSpace (tl t)))
            else map_option (\<lambda>(elements, r). (JArray elements, r)) (parseElements n (tl t)))
         else if hd t = CHR 0x22 then
           map_option (\<lambda>(text, r). (JString text, r)) (lexString (tl t))
         else if startsWith t ''true'' then Some (JBool True, drop 4 t)
         else if startsWith t ''false'' then Some (JBool False, drop 5 t)
         else if startsWith t ''null'' then Some (JNull, drop 4 t)
         else map_option (\<lambda>(numeral, r). (JNumber numeral, r)) (lexNumber t))"
| "parseElements 0 s = None"
| "parseElements (Suc n) s =
     (case parseValue n s of
        None \<Rightarrow> None
      | Some (v, r) \<Rightarrow>
          (let t = skipSpace r
           in if t = [] then None
              else if hd t = CHR '','' then
                map_option (\<lambda>(elements, u). (v # elements, u)) (parseElements n (tl t))
              else if hd t = CHR '']'' then Some ([v], tl t)
              else None))"
| "parseMembers 0 s = None"
| "parseMembers (Suc n) s =
     (let t = skipSpace s
      in if t = [] \<or> hd t \<noteq> CHR 0x22 then None
         else
          (case lexString (tl t) of
             None \<Rightarrow> None
           | Some (key, r) \<Rightarrow>
               (let u = skipSpace r
                in if u = [] \<or> hd u \<noteq> CHR '':'' then None
                   else
                    (case parseValue n (tl u) of
                       None \<Rightarrow> None
                     | Some (v, w) \<Rightarrow>
                         (let x = skipSpace w
                          in if x = [] then None
                             else if hd x = CHR '','' then
                               map_option (\<lambda>(members, y). ((key, v) # members, y))
                                 (parseMembers n (tl x))
                             else if hd x = CHR ''}'' then Some ([(key, v)], tl x)
                             else None)))))"

text \<open>
  \<^verbatim>\<open>JSON.parse(text)\<close>: one value with nothing but white space around it, and \<open>None\<close>
  where it throws a \<^verbatim>\<open>SyntaxError\<close>.
\<close>

definition JSON_parse :: "string \<Rightarrow> Json option" where
  "JSON_parse text =
     (case parseValue (Suc (length text)) text of
        None \<Rightarrow> None
      | Some (v, r) \<Rightarrow> if skipSpace r = [] then Some v else None)"

chapter \<open>Properties\<close>

section \<open>Files of the store\<close>

lemma readTask_id: "readTask st taskId = Some task \<Longrightarrow> task_id task = taskId"
  by (auto simp: readTask_def find_Some_iff)

lemma readTask_mem: "readTask st taskId = Some task \<Longrightarrow> task \<in> set (taskFiles st)"
  by (auto simp: readTask_def find_Some_iff)

lemma find_map_replace_same:
  "\<exists>t \<in> set ts. f t = f new \<Longrightarrow>
   find (\<lambda>t. f t = f new) (map (\<lambda>t. if f t = f new then new else t) ts) = Some new"
  by (induction ts) auto

lemma find_map_replace_other:
  "k \<noteq> f new \<Longrightarrow>
   find (\<lambda>t. f t = k) (map (\<lambda>t. if f t = f new then new else t) ts) = find (\<lambda>t. f t = k) ts"
  by (induction ts) auto

lemma find_append_miss:
  "\<not> (\<exists>t \<in> set ts. P t) \<Longrightarrow> find P (ts @ us) = find P us"
  by (induction ts) auto

lemma find_append_other:
  "\<not> P new \<Longrightarrow> find P (ts @ [new]) = find P ts"
  by (induction ts) auto

lemma readTask_writeTask_same [simp]: "readTask (writeTask task st) (task_id task) = Some task"
  unfolding readTask_def writeTask_def
  by (simp add: find_map_replace_same find_append_miss)

lemma readTask_writeTask_other [simp]:
  "taskId \<noteq> task_id task \<Longrightarrow> readTask (writeTask task st) taskId = readTask st taskId"
  unfolding readTask_def writeTask_def
  by (simp add: find_map_replace_other find_append_other)

lemma writeTask_fields [simp]:
  "teamId (writeTask task st) = teamId st"
  "defaultLeaseTtlMs (writeTask task st) = defaultLeaseTtlMs st"
  "teamDirPath (writeTask task st) = teamDirPath st"
  "teamFile (writeTask task st) = teamFile st"
  "createTaskIdempotency (writeTask task st) = createTaskIdempotency st"
  "threadIndex (writeTask task st) = threadIndex st"
  "threadFiles (writeTask task st) = threadFiles st"
  "inboxFiles (writeTask task st) = inboxFiles st"
  "auditLog (writeTask task st) = auditLog st"
  by (simp_all add: writeTask_def)

lemma appendAuditEvent_fields [simp]:
  "teamId (appendAuditEvent a ty r now st) = teamId st"
  "defaultLeaseTtlMs (appendAuditEvent a ty r now st) = defaultLeaseTtlMs st"
  "teamDirPath (appendAuditEvent a ty r now st) = teamDirPath st"
  "teamFile (appendAuditEvent a ty r now st) = teamFile st"
  "taskFiles (appendAuditEvent a ty r now st) = taskFiles st"
  "createTaskIdempotency (appendAuditEvent a ty r now st) = createTaskIdempotency st"
  "threadIndex (appendAuditEvent a ty r now st) = threadIndex st"
  "threadFiles (appendAuditEvent a ty r now st) = threadFiles st"
  "inboxFiles (appendAuditEvent a ty r now st) = inboxFiles st"
  by (simp_all add: appendAuditEvent_def)

lemma readTask_appendAuditEvent [simp]:
  "readTask (appendAuditEvent a ty r now st) taskId = readTask st taskId"
  by (simp add: readTask_def)

lemma readInbox_fields:
  "readInbox agentId st = (state, st1) \<Longrightarrow>
     teamId st1 = teamId st \<and> defaultLeaseTtlMs st1 = defaultLeaseTtlMs st
     \<and> teamDirPath st1 = teamDirPath st \<and> teamFile st1 = teamFile st
     \<and> taskFiles st1 = taskFiles st \<and> createTaskIdempotency st1 = createTaskIdempotency st
     \<and> threadIndex st1 = threadIndex st \<and> threadFiles st1 = threadFiles st
     \<and> auditLog st1 = auditLog st"
  by (auto simp: readInbox_def Let_def split: option.splits)

lemma writeInbox_fields [simp]:
  "teamId (writeInbox a s st) = teamId st"
  "defaultLeaseTtlMs (writeInbox a s st) = defaultLeaseTtlMs st"
  "teamDirPath (writeInbox a s st) = teamDirPath st"
  "teamFile (writeInbox a s st) = teamFile st"
  "taskFiles (writeInbox a s st) = taskFiles st"
  "createTaskIdempotency (writeInbox a s st) = createTaskIdempotency st"
  "threadIndex (writeInbox a s st) = threadIndex st"
  "threadFiles (writeInbox a s st) = threadFiles st"
  "auditLog (writeInbox a s st) = auditLog st"
  by (simp_all add: writeInbox_def)

text \<open>Appending to the inboxes touches no other file, whether it throws or not.\<close>

lemma appendInboxLoop_fields:
  "appendInboxLoop rs ev now st = (r, st') \<Longrightarrow>
     teamId st' = teamId st \<and> defaultLeaseTtlMs st' = defaultLeaseTtlMs st
     \<and> teamDirPath st' = teamDirPath st \<and> teamFile st' = teamFile st
     \<and> taskFiles st' = taskFiles st \<and> createTaskIdempotency st' = createTaskIdempotency st
     \<and> threadIndex st' = threadIndex st \<and> threadFiles st' = threadFiles st
     \<and> auditLog st' = auditLog st"
proof (induction rs arbitrary: st)
  case Nil
  then show ?case by simp
next
  case (Cons a rs)
  show ?case
  proof (cases "ensureAgentId a")
    case (Inl e)
    with Cons.prems show ?thesis by simp
  next
    case (Inr agentId)
    obtain state st1 where ri: "readInbox agentId st = (state, st1)"
      by (cases "readInbox agentId st")
    from Cons.prems Inr ri obtain st2 where
      st2: "appendInboxLoop rs ev now st2 = (r, st')"
      and eq: "teamId st2 = teamId st1 \<and> defaultLeaseTtlMs st2 = defaultLeaseTtlMs st1
        \<and> teamDirPath st2 = teamDirPath st1 \<and> teamFile st2 = teamFile st1
        \<and> taskFiles st2 = taskFiles st1 \<and> createTaskIdempotency st2 = createTaskIdempotency st1
        \<and> threadIndex st2 = threadIndex st1 \<and> threadFiles st2 = threadFiles st1
        \<and> auditLog st2 = auditLog st1"
      by (auto simp: Let_def)
    from Cons.IH [OF st2] eq readInbox_fields [OF ri] show ?thesis by simp
  qed
qed

lemma appendInboxEvent_fields:
  "appendInboxEvent rs ev now st = (r, st') \<Longrightarrow>
     teamId st' = teamId st \<and> defaultLeaseTtlMs st' = defaultLeaseTtlMs st
     \<and> teamDirPath st' = teamDirPath st \<and> teamFile st' = teamFile st
     \<and> taskFiles st' = taskFiles st \<and> createTaskIdempotency st' = createTaskIdempotency st
     \<and> threadIndex st' = threadIndex st \<and> threadFiles st' = threadFiles st
     \<and> auditLog st' = auditLog st"
  unfolding appendInboxEvent_def by (rule appendInboxLoop_fields)

lemma appendInboxEvent_taskFiles:
  "appendInboxEvent rs ev now st = (r, st') \<Longrightarrow> taskFiles st' = taskFiles st"
  by (simp add: appendInboxEvent_fields)

lemma appendInboxEvent_readTask:
  "appendInboxEvent rs ev now st = (r, st') \<Longrightarrow> readTask st' taskId = readTask st taskId"
  by (simp add: readTask_def appendInboxEvent_taskFiles)

section \<open>Finalizing a task\<close>


lemma finalizeTask_success:
  assumes "finalizeTask taskId agentId epoch fstatus now st = (Inr final, st')"
  shows "\<exists>task l. readTask st taskId = Some task \<and> task_status task = in_progress
           \<and> task_lease task = Some l \<and> \<not> isLeaseExpired now l
           \<and> lease_holder l = agentId \<and> lease_epoch l = epoch
           \<and> task_id final = task_id task \<and> task_status final = fstatus \<and> task_lease final = None
           \<and> task_owner final = task_owner task \<and> task_epoch final = task_epoch task
           \<and> task_deps final = task_deps task \<and> task_resources final = task_resources task
           \<and> (fstatus = completed \<longrightarrow> completedAt (task_timestamps final) = Some now)
           \<and> (fstatus = failed \<longrightarrow> failedAt (task_timestamps final) = Some now)
           \<and> taskFiles st' = taskFiles (writeTask final st)"
proof -
  from assms obtain task where t: "readTask st taskId = Some task"
    by (auto simp: finalizeTask_def loadTaskOrThrow_def split: option.splits)
  from assms t obtain l where l: "task_lease task = Some l"
    by (auto simp: finalizeTask_def loadTaskOrThrow_def split: option.splits)
  from assms t l have c: "task_status task = in_progress" "\<not> isLeaseExpired now l"
      "lease_holder l = agentId" "lease_epoch l = epoch"
    by (auto simp: finalizeTask_def loadTaskOrThrow_def split: if_splits)
  show ?thesis
    using assms t l c
    by (auto simp: finalizeTask_def loadTaskOrThrow_def Let_def
        split: prod.splits sum.splits dest!: appendInboxEvent_taskFiles)
qed







lemma completeTask_success:
  assumes "completeTask tid taskId agentId epoch now st = (Inr final, st')"
  shows "tid = teamId st \<and>
         (\<exists>st1. finalizeTask taskId agentId epoch completed now st = (Inr final, st1)
               \<and> st' = unlockDependents (task_id final) agentId now st1)"
  using assms
  by (auto simp: completeTask_def assertTeamId_def split: if_splits prod.splits sum.splits)

lemma failTask_success:
  assumes "failTask tid taskId agentId epoch now st = (Inr final, st')"
  shows "tid = teamId st \<and> finalizeTask taskId agentId epoch failed now st = (Inr final, st')"
  using assms
  by (auto simp: failTask_def assertTeamId_def split: if_splits prod.splits sum.splits)

lemma readTask_cong: "taskFiles st' = taskFiles st \<Longrightarrow> readTask st' k = readTask st k"
  by (simp add: readTask_def)




lemma exampleStore_eq:
  "exampleStore =
     \<lparr>teamId = ''alpha'', defaultLeaseTtlMs = 300000, teamDirPath = ''/ws/alpha'',
      teamFile = Some \<lparr>team_teamId = ''alpha'', team_agents = [], team_budget = None\<rparr>,
      taskFiles = [exampleTask],
      createTaskIdempotency = [(''k1'', ''task-0001'', 1000)],
      threadIndex = [], threadFiles = [], inboxFiles = [],
      auditLog =
        [\<lparr>audit_actor = ''teamd'', audit_type = ''task_created'',
           audit_refs = [(''taskId'', ''task-0001'')], audit_ts = 1000\<rparr>,
         \<lparr>audit_actor = ''worker_a'', audit_type = ''task_claimed'',
           audit_refs = [(''taskId'', ''task-0001'')], audit_ts = 2000\<rparr>]\<rparr>"
  by code_simp


lemma teamId_exampleStore: "teamId exampleStore = ''alpha''"
  by code_simp


section \<open>Minted identifiers\<close>

lemma digitChar_val: "d < 10 \<Longrightarrow> (of_char (digitChar d) :: nat) = 48 + d"
  by (simp add: digitChar_def)

lemma isDigit_digitChar: "d < 10 \<Longrightarrow> isDigit (digitChar d)"
  by (simp add: isDigit_def digitChar_val)

lemma showNat_nonempty: "showNat n \<noteq> []"
  by (subst showNat.simps) simp

lemma showNat_digits: "list_all isDigit (showNat n)"
proof (induction n rule: showNat.induct)
  case (1 n)
  show ?case
  proof (cases "n < 10")
    case True
    then show ?thesis by (subst showNat.simps) (simp add: isDigit_digitChar)
  next
    case False
    with 1 show ?thesis by (subst showNat.simps) (simp add: isDigit_digitChar)
  qed
qed

lemma parseDigits_snoc: "parseDigits (s @ [c]) = 10 * parseDigits s + ((of_char c :: nat) - 48)"
  by (simp add: parseDigits_def)

lemma parseDigits_showNat: "parseDigits (showNat n) = n"
proof (induction n rule: showNat.induct)
  case (1 n)
  show ?case
  proof (cases "n < 10")
    case True
    then show ?thesis by (subst showNat.simps) (simp add: parseDigits_def digitChar_val)
  next
    case False
    with 1 have "parseDigits (showNat (n div 10)) = n div 10" by simp
    with False show ?thesis
      by (subst showNat.simps) (simp add: parseDigits_snoc digitChar_val)
  qed
qed

lemma parseDigits_zeros: "parseDigits (replicate k (CHR ''0'') @ s) = parseDigits s"
proof (induction k)
  case 0
  then show ?case by simp
next
  case (Suc k)
  have "foldl (\<lambda>acc c. 10 * acc + ((of_char c :: nat) - 48)) 0 (replicate k (CHR ''0'') @ s)
        = foldl (\<lambda>acc c. 10 * acc + ((of_char c :: nat) - 48)) 0 s"
    using Suc by (simp add: parseDigits_def)
  then show ?case by (simp add: parseDigits_def)
qed

lemma parseDigits_padStart: "parseDigits (padStart k (showNat n)) = n"
  by (simp add: padStart_def parseDigits_zeros parseDigits_showNat)

lemma isDigit_zero: "isDigit (CHR ''0'')"
  by (simp add: isDigit_def)

lemma padStart_digits: "list_all isDigit (padStart k (showNat n))"
  using showNat_digits [of n] by (auto simp: padStart_def isDigit_zero list_all_iff)

lemma padStart_nonempty: "padStart k (showNat n) \<noteq> []"
  by (simp add: padStart_def showNat_nonempty)

lemma parseNumericId_build: "parseNumericId pre (pre @ padStart k (showNat n)) = n"
  by (simp add: parseNumericId_def startsWith_def padStart_digits padStart_nonempty parseDigits_padStart)

lemma parseTaskNumericId_buildTaskId: "parseTaskNumericId (buildTaskId n) = n"
  unfolding parseTaskNumericId_def buildTaskId_def by (rule parseNumericId_build)

lemma parseThreadNumericId_buildThreadId: "parseThreadNumericId (buildThreadId n) = n"
  unfolding parseThreadNumericId_def buildThreadId_def by (rule parseNumericId_build)

lemma foldl_max_ge: "(m::nat) \<le> foldl (\<lambda>maxValue t. max maxValue (f t)) m ts"
proof (induction ts arbitrary: m)
  case Nil
  then show ?case by simp
next
  case (Cons t ts)
  have "m \<le> max m (f t)" by simp
  also have "\<dots> \<le> foldl (\<lambda>maxValue t. max maxValue (f t)) (max m (f t)) ts" by (rule Cons.IH)
  finally show ?case by simp
qed

lemma foldl_max_upper:
  "t \<in> set ts \<Longrightarrow> f t \<le> foldl (\<lambda>maxValue t. max maxValue (f t)) (m::nat) ts"
proof (induction ts arbitrary: m)
  case Nil
  then show ?case by simp
next
  case (Cons a ts)
  show ?case
  proof (cases "t = a")
    case True
    have "f a \<le> max m (f a)" by simp
    also have "\<dots> \<le> foldl (\<lambda>maxValue t. max maxValue (f t)) (max m (f a)) ts"
      by (rule foldl_max_ge)
    finally show ?thesis using True by simp
  next
    case False
    with Cons show ?thesis by simp
  qed
qed

text \<open>The identifier that createTask mints is the identifier of no task on disk.\<close>

lemma minted_taskId_fresh:
  assumes "t \<in> set ts"
  shows "task_id t \<noteq> buildTaskId (foldl (\<lambda>maxValue task. max maxValue (parseTaskNumericId (task_id task))) 0 ts + 1)"
proof
  let ?n = "foldl (\<lambda>maxValue task. max maxValue (parseTaskNumericId (task_id task))) 0 ts"
  assume "task_id t = buildTaskId (?n + 1)"
  then have "parseTaskNumericId (task_id t) = ?n + 1"
    by (simp add: parseTaskNumericId_buildTaskId)
  moreover have "parseTaskNumericId (task_id t) \<le> ?n"
    using assms by (rule foldl_max_upper [where f = "\<lambda>t. parseTaskNumericId (task_id t)"])
  ultimately show False by simp
qed

section \<open>The lease invariant\<close>

lemma set_writeTask: "set (taskFiles (writeTask new st)) \<subseteq> insert new (set (taskFiles st))"
  by (auto simp: writeTask_def)

lemma storeInvariant_writeTask:
  "leaseInvariant new \<Longrightarrow> storeInvariant st \<Longrightarrow> storeInvariant (writeTask new st)"
  using set_writeTask unfolding storeInvariant_def by blast

lemma storeInvariant_cong: "taskFiles st' = taskFiles st \<Longrightarrow> storeInvariant st' = storeInvariant st"
  by (simp add: storeInvariant_def)

lemma storeInvariant_audit [simp]:
  "storeInvariant (appendAuditEvent a ty r now st) = storeInvariant st"
  by (simp add: storeInvariant_def)

lemma snd_inbox_case [simp]:
  "snd (case appendInboxEvent rs ev now st of (Inl e, st3) \<Rightarrow> (Inl e, st3) | (Inr u, st3) \<Rightarrow> (Inr y, st3))
     = snd (appendInboxEvent rs ev now st)"
  by (simp split: prod.splits sum.splits)

lemma storeInvariant_inbox [simp]:
  "storeInvariant (snd (appendInboxEvent rs ev now st)) = storeInvariant st"
  by (rule storeInvariant_cong) (simp add: appendInboxEvent_taskFiles [OF surjective_pairing])

lemma leaseInvariant_new [simp]:
  "leaseInvariant \<lparr>task_id = i, task_title = ti, task_description = d,
      task_status = s, task_owner = None, task_deps = ds,
      task_resources = rs, task_lease = None, task_epoch = 0, task_timestamps = ts\<rparr>
   = (s \<noteq> in_progress)"
  by (simp add: leaseInvariant_def)

lemma storeInvariant_idempotency [simp]:
  "storeInvariant (s\<lparr>createTaskIdempotency := x\<rparr>) = storeInvariant s"
  by (simp add: storeInvariant_def)

lemma createTask_inv:
  assumes "storeInvariant st"
  shows "storeInvariant (snd (createTask tid input key now st))"
  unfolding createTask_def Let_def
  using assms
  by (simp add: storeInvariant_writeTask split: sum.splits option.splits prod.splits)

lemma claimTask_inv:
  assumes "storeInvariant st"
  shows "storeInvariant (snd (claimTask tid taskId agentId ttlMs now st))"
proof -
  have n: "leaseInvariant (t\<lparr>task_status := in_progress, task_owner := Some a,
       task_lease := Some \<lparr>lease_holder = a, lease_epoch = e, lease_expiresAt = x\<rparr>,
       task_epoch := e, task_timestamps := ts\<rparr>)" for t a e x ts
    by (simp add: leaseInvariant_def)
  show ?thesis
    unfolding claimTask_def Let_def
    using assms
    by (simp add: storeInvariant_writeTask [OF n assms] split: sum.splits)
qed

lemma renewTask_inv:
  assumes "storeInvariant st"
  shows "storeInvariant (snd (renewTask tid taskId agentId epoch ttlMs now st))"
proof -
  have n: "leaseInvariant (t\<lparr>task_lease := Some (l\<lparr>lease_expiresAt := x\<rparr>)\<rparr>)"
    if "readTask st taskId = Some t" "task_lease t = Some l" for t l x
    using that assms readTask_mem [OF that(1)]
    by (auto simp add: leaseInvariant_def storeInvariant_def)
  show ?thesis
    unfolding renewTask_def Let_def loadTaskOrThrow_def
    using assms
    by (simp add: storeInvariant_writeTask [OF n assms] split: sum.splits option.splits)
qed

lemma finalizeTask_inv:
  assumes "storeInvariant st" and "fstatus = completed \<or> fstatus = failed"
  shows "storeInvariant (snd (finalizeTask taskId agentId epoch fstatus now st))"
proof -
  have n: "leaseInvariant (t\<lparr>task_status := s, task_lease := None, task_timestamps := ts\<rparr>)
            = (s \<noteq> in_progress)" for t ts s
    by (auto simp add: leaseInvariant_def)
  from assms(2) show ?thesis
  proof
    assume "fstatus = completed"
    then show ?thesis
      unfolding finalizeTask_def Let_def loadTaskOrThrow_def
      using assms(1)
      by (simp add: storeInvariant_writeTask n split: sum.splits option.splits)
  next
    assume "fstatus = failed"
    then show ?thesis
      unfolding finalizeTask_def Let_def loadTaskOrThrow_def
      using assms(1)
      by (simp add: storeInvariant_writeTask n split: sum.splits option.splits)
  qed
qed

lemma unlockLoop_inv:
  assumes "storeInvariant st" and "\<forall>t \<in> set ts. leaseInvariant t"
  shows "storeInvariant (unlockLoop c a now cids ts st)"
  using assms
proof (induction ts arbitrary: st)
  case Nil
  then show ?case by simp
next
  case (Cons t ts)
  have n: "leaseInvariant (t\<lparr>task_status := pending\<rparr>)" if "task_status t = blocked"
    using that Cons.prems(2) by (auto simp: leaseInvariant_def)
  show ?case
    using Cons.prems n
    by (simp add: Let_def Cons.IH storeInvariant_writeTask)
qed

lemma unlockDependents_inv:
  assumes "storeInvariant st"
  shows "storeInvariant (unlockDependents c a now st)"
  unfolding unlockDependents_def Let_def listTasksUnsafe_def
  using assms by (intro unlockLoop_inv) (simp_all add: storeInvariant_def)

lemma applyOp_inv:
  assumes "storeInvariant st"
  shows "storeInvariant (applyOp op st)"
proof (cases op)
  case (CompleteTask tid taskId agentId epoch now)
  show ?thesis
  proof (cases "finalizeTask taskId agentId epoch completed now st")
    case (Pair r st1)
    with finalizeTask_inv [OF assms, of completed taskId agentId epoch now]
    have "storeInvariant st1" by simp
    from unlockDependents_inv [OF this] Pair assms this show ?thesis
      by (simp add: CompleteTask completeTask_def split: sum.splits)
  qed
next
  case (FailTask tid taskId agentId epoch now)
  with finalizeTask_inv [OF assms, of failed taskId agentId epoch now] assms show ?thesis
    by (simp add: failTask_def split: sum.splits)
qed (use assms createTask_inv claimTask_inv renewTask_inv unlockDependents_inv in simp_all)

lemma runOps_inv:
  "storeInvariant st \<Longrightarrow> storeInvariant (runOps ops st)"
  unfolding runOps_def
  by (induction ops arbitrary: st) (simp_all add: applyOp_inv)

text \<open>
  Claim C1. Start from the store of a fresh workspace and run any sequence of
  \<^verbatim>\<open>createTask\<close>, \<^verbatim>\<open>claimTask\<close>, \<^verbatim>\<open>renewTask\<close>, \<^verbatim>\<open>completeTask\<close>, \<^verbatim>\<open>failTask\<close> and
  \<^verbatim>\<open>unlockDependents\<close>, with any arguments. Every task record on disk afterwards has a
  lease if and only if its status is \<^verbatim>\<open>in_progress\<close>, and when it has a lease, its owner
  is the holder of the lease and its epoch is the epoch of the lease.
\<close>

theorem lease_iff_in_progress:
  assumes "task \<in> set (taskFiles (runOps ops (createStore tid ttl dir)))"
  shows "((task_lease task \<noteq> None) = (task_status task = in_progress))
         \<and> (\<forall>lease. task_lease task = Some lease \<longrightarrow>
               task_owner task = Some (lease_holder lease) \<and> task_epoch task = lease_epoch lease)"
proof -
  have "storeInvariant (createStore tid ttl dir)"
    by (simp add: storeInvariant_def createStore_def)
  then have "storeInvariant (runOps ops (createStore tid ttl dir))"
    by (rule runOps_inv)
  with assms have "leaseInvariant task"
    by (simp add: storeInvariant_def)
  then show ?thesis
    by (auto simp: leaseInvariant_def)
qed

theorem lease_iff_in_progress_witness:
  "exampleTask \<in> set (taskFiles (runOps exampleOps (createStore ''alpha'' 300000 ''/ws/alpha'')))
   \<and> task_status exampleTask = in_progress
   \<and> task_lease exampleTask
       = Some \<lparr>lease_holder = ''worker_a'', lease_epoch = 1, lease_expiresAt = 2025\<rparr>
   \<and> task_owner exampleTask = Some ''worker_a'' \<and> task_epoch exampleTask = 1"
proof -
  have h: "exampleTask \<in> set (taskFiles (runOps exampleOps (createStore ''alpha'' 300000 ''/ws/alpha'')))"
    using exampleStore_eq by (simp add: exampleStore_def)
  have l: "task_lease exampleTask
       = Some \<lparr>lease_holder = ''worker_a'', lease_epoch = 1, lease_expiresAt = 2025\<rparr>"
    by (simp add: exampleTask_def)
  from lease_iff_in_progress [OF h] l h show ?thesis
    by simp
qed


section \<open>Task files have distinct names\<close>

lemma map_task_id_writeTask:
  "map task_id (taskFiles (writeTask new st)) =
     (if \<exists>t \<in> set (taskFiles st). task_id t = task_id new
      then map task_id (taskFiles st) else map task_id (taskFiles st) @ [task_id new])"
proof -
  have "map task_id (map (\<lambda>t. if task_id t = task_id new then new else t) ts) = map task_id ts" for ts
    by (induction ts) auto
  then show ?thesis by (simp add: writeTask_def)
qed

lemma distinct_writeTask:
  "distinct (map task_id (taskFiles st)) \<Longrightarrow> distinct (map task_id (taskFiles (writeTask new st)))"
  by (auto simp: map_task_id_writeTask)

lemma find_distinct_key:
  "distinct (map f xs) \<Longrightarrow> x \<in> set xs \<Longrightarrow> find (\<lambda>y. f y = f x) xs = Some x"
  by (induction xs) (auto simp: image_iff)

lemma readTask_distinct:
  "distinct (map task_id (taskFiles st)) \<Longrightarrow> t \<in> set (taskFiles st) \<Longrightarrow>
   readTask st (task_id t) = Some t"
  unfolding readTask_def by (rule find_distinct_key)

lemma unlockLoop_readTask:
  assumes "distinct (map task_id ts)" and "\<forall>t \<in> set ts. readTask st (task_id t) = Some t"
  shows "readTask (unlockLoop c a now cids ts st) k =
           (case find (\<lambda>t. task_id t = k) ts of
              None \<Rightarrow> readTask st k
            | Some t \<Rightarrow>
                Some (if task_status t = blocked \<and> c \<in> set (task_deps t)
                         \<and> list_all (\<lambda>depId. depId \<in> set cids) (task_deps t)
                      then t\<lparr>task_status := pending\<rparr> else t))"
  using assms
proof (induction ts arbitrary: st)
  case Nil
  then show ?case by simp
next
  case (Cons t ts)
  let ?unlock = "task_status t = blocked \<and> c \<in> set (task_deps t)
                   \<and> list_all (\<lambda>depId. depId \<in> set cids) (task_deps t)"
  from Cons.prems have d: "distinct (map task_id ts)" and nt: "task_id t \<notin> task_id ` set ts"
    by simp_all
  have miss: "find (\<lambda>u. task_id u = task_id t) ts = None"
    unfolding find_None_iff using nt by (metis imageI)
  show ?case
  proof (cases ?unlock)
    case False
    then have step: "unlockLoop c a now cids (t # ts) st = unlockLoop c a now cids ts st"
      by auto
    from Cons.prems have r: "\<forall>u \<in> set ts. readTask st (task_id u) = Some u" by simp
    from Cons.prems have rt: "readTask st (task_id t) = Some t" by simp
    show ?thesis
      unfolding step Cons.IH [OF d r]
      using False miss rt by (auto split: option.splits)
  next
    case True
    define st2 where "st2 = appendAuditEvent a ''task_unblocked''
        [(''taskId'', task_id t)] now (writeTask (t\<lparr>task_status := pending\<rparr>) st)"
    from True have step: "unlockLoop c a now cids (t # ts) st = unlockLoop c a now cids ts st2"
      by (simp add: st2_def Let_def)
    have other: "readTask st2 j = readTask st j" if "j \<noteq> task_id t" for j
      using that by (simp add: st2_def)
    have same: "readTask st2 (task_id t) = Some (t\<lparr>task_status := pending\<rparr>)"
      using readTask_writeTask_same [of "t\<lparr>task_status := pending\<rparr>" st]
      by (simp add: st2_def)
    have r: "\<forall>u \<in> set ts. readTask st2 (task_id u) = Some u"
      using Cons.prems(2) nt other by (metis image_eqI list.set_intros(2))
    show ?thesis
      unfolding step Cons.IH [OF d r]
      using True miss same other by (auto split: option.splits)
  qed
qed

lemma unlockDependents_readTask:
  assumes "distinct (map task_id (taskFiles st))"
  shows "readTask (unlockDependents c a now st) k =
           (case readTask st k of
              None \<Rightarrow> None
            | Some t \<Rightarrow>
                Some (if task_status t = blocked \<and> c \<in> set (task_deps t)
                         \<and> (\<forall>depId \<in> set (task_deps t).
                               \<exists>dep. readTask st depId = Some dep \<and> task_status dep = completed)
                      then t\<lparr>task_status := pending\<rparr> else t))"
proof -
  let ?cids = "map task_id (filter (\<lambda>task. task_status task = completed) (taskFiles st))"
  have r: "\<forall>t \<in> set (taskFiles st). readTask st (task_id t) = Some t"
    using assms readTask_distinct by blast
  have c: "(d \<in> set ?cids) = (\<exists>dep. readTask st d = Some dep \<and> task_status dep = completed)" for d
  proof
    assume "d \<in> set ?cids"
    then obtain dep where "dep \<in> set (taskFiles st)" "task_status dep = completed" "task_id dep = d"
      by auto
    with r show "\<exists>dep. readTask st d = Some dep \<and> task_status dep = completed" by auto
  next
    assume "\<exists>dep. readTask st d = Some dep \<and> task_status dep = completed"
    then obtain dep where "readTask st d = Some dep" "task_status dep = completed" by blast
    then show "d \<in> set ?cids"
      using readTask_mem readTask_id by (fastforce simp: image_iff)
  qed
  have la: "list_all (\<lambda>d. d \<in> set ?cids) ds
      = (\<forall>d \<in> set ds. \<exists>dep. readTask st d = Some dep \<and> task_status dep = completed)" for ds
    unfolding list_all_iff by (intro ball_cong refl c)
  have f: "find (\<lambda>t. task_id t = k) (taskFiles st) = readTask st k"
    by (simp add: readTask_def)
  have "readTask (unlockDependents c a now st) k =
          (case readTask st k of
             None \<Rightarrow> readTask st k
           | Some t \<Rightarrow>
               Some (if task_status t = blocked \<and> c \<in> set (task_deps t)
                        \<and> list_all (\<lambda>d. d \<in> set ?cids) (task_deps t)
                     then t\<lparr>task_status := pending\<rparr> else t))"
    unfolding unlockDependents_def Let_def listTasksUnsafe_def
      unlockLoop_readTask [OF assms r] f ..
  then show ?thesis
    unfolding la by (simp split: option.splits)
qed

lemma unlockLoop_distinct:
  "distinct (map task_id (taskFiles st)) \<Longrightarrow>
   distinct (map task_id (taskFiles (unlockLoop c a now cids ts st)))"
  by (induction ts arbitrary: st) (simp_all add: Let_def distinct_writeTask)

lemma unlockDependents_distinct:
  "distinct (map task_id (taskFiles st)) \<Longrightarrow>
   distinct (map task_id (taskFiles (unlockDependents c a now st)))"
  by (simp add: unlockDependents_def Let_def unlockLoop_distinct)

lemma distinct_cong:
  "taskFiles st' = taskFiles st \<Longrightarrow>
   distinct (map task_id (taskFiles st')) = distinct (map task_id (taskFiles st))"
  by simp

lemma distinct_inbox [simp]:
  "distinct (map task_id (taskFiles (snd (appendInboxEvent rs ev now st))))
     = distinct (map task_id (taskFiles st))"
  by (simp add: appendInboxEvent_taskFiles [OF surjective_pairing])

lemma createTask_distinct:
  assumes "distinct (map task_id (taskFiles st))"
  shows "distinct (map task_id (taskFiles (snd (createTask tid input key now st))))"
  unfolding createTask_def Let_def
  using assms
  by (simp add: distinct_writeTask split: sum.splits option.splits prod.splits)

lemma claimTask_distinct:
  assumes "distinct (map task_id (taskFiles st))"
  shows "distinct (map task_id (taskFiles (snd (claimTask tid taskId agentId ttlMs now st))))"
  unfolding claimTask_def Let_def
  using assms
  by (simp add: distinct_writeTask split: sum.splits)

lemma renewTask_distinct:
  assumes "distinct (map task_id (taskFiles st))"
  shows "distinct (map task_id (taskFiles (snd (renewTask tid taskId agentId epoch ttlMs now st))))"
  unfolding renewTask_def Let_def
  using assms
  by (simp add: distinct_writeTask split: sum.splits option.splits)

lemma finalizeTask_distinct:
  assumes "distinct (map task_id (taskFiles st))"
  shows "distinct (map task_id (taskFiles (snd (finalizeTask taskId agentId epoch fstatus now st))))"
  unfolding finalizeTask_def Let_def
  using assms
  by (simp add: distinct_writeTask split: sum.splits option.splits)

lemma completeTask_distinct:
  assumes "distinct (map task_id (taskFiles st))"
  shows "distinct (map task_id (taskFiles (snd (completeTask tid taskId agentId epoch now st))))"
proof (cases "finalizeTask taskId agentId epoch completed now st")
  case (Pair r st1)
  with finalizeTask_distinct [OF assms, of taskId agentId epoch completed now]
  have "distinct (map task_id (taskFiles st1))" by simp
  from unlockDependents_distinct [OF this] Pair assms this show ?thesis
    by (simp add: completeTask_def split: sum.splits)
qed

lemma failTask_distinct:
  assumes "distinct (map task_id (taskFiles st))"
  shows "distinct (map task_id (taskFiles (snd (failTask tid taskId agentId epoch now st))))"
  using finalizeTask_distinct [OF assms, of taskId agentId epoch failed now] assms
  by (simp add: failTask_def split: sum.splits)

lemma applyOp_distinct:
  assumes "distinct (map task_id (taskFiles st))"
  shows "distinct (map task_id (taskFiles (applyOp op st)))"
  using assms createTask_distinct claimTask_distinct renewTask_distinct completeTask_distinct
    failTask_distinct unlockDependents_distinct
  by (cases op) simp_all

lemma runOps_distinct:
  "distinct (map task_id (taskFiles st)) \<Longrightarrow> distinct (map task_id (taskFiles (runOps ops st)))"
  unfolding runOps_def
  by (induction ops arbitrary: st) (simp_all add: applyOp_distinct)


section \<open>Claiming a task\<close>







section \<open>Epochs never decrease\<close>



lemma epochOrder_cong: "taskFiles st'' = taskFiles st' \<Longrightarrow> epochOrder st st'' = epochOrder st st'"
  by (simp add: epochOrder_def readTask_def)


lemma epochOrder_audit [simp]:
  "epochOrder st (appendAuditEvent a ty r now st') = epochOrder st st'"
  by (rule epochOrder_cong) simp

lemma epochOrder_inbox [simp]:
  "epochOrder st (snd (appendInboxEvent rs ev now st')) = epochOrder st st'"
  by (rule epochOrder_cong) (simp add: appendInboxEvent_taskFiles [OF surjective_pairing])

lemma epochOrder_idempotency [simp]:
  "epochOrder st (st'\<lparr>createTaskIdempotency := x\<rparr>) = epochOrder st st'"
  by (rule epochOrder_cong) simp



















section \<open>Creating a task\<close>

lemma createTask_created:
  assumes "createTask tid input key now st = (Inr (task, True), st')"
  shows "tid = teamId st \<and> trim (input_title input) \<noteq> []
       \<and> task_id task = buildTaskId (foldl (\<lambda>maxValue task.
            max maxValue (parseTaskNumericId (task_id task))) 0 (taskFiles st) + 1)
       \<and> task_title task = trim (input_title input)
       \<and> task_deps task = uniq (filterBoolean (map trim
            (case input_deps input of None \<Rightarrow> [] | Some ds \<Rightarrow> ds)))
       \<and> task_resources task = uniq (filterBoolean (map normalizePathPrefix
            (case input_resources input of None \<Rightarrow> [] | Some rs \<Rightarrow> rs)))
       \<and> task_status task =
            (if task_deps task \<noteq> []
                \<and> \<not> (\<forall>depId \<in> set (task_deps task).
                       \<exists>dep. readTask st depId = Some dep \<and> task_status dep = completed)
             then blocked else pending)
       \<and> task_owner task = None \<and> task_lease task = None \<and> task_epoch task = 0
       \<and> taskFiles st' = taskFiles st @ [task]
       \<and> createTaskIdempotency st' =
            (case key of
               None \<Rightarrow> createTaskIdempotency st
             | Some k \<Rightarrow> if k = [] then createTaskIdempotency st
                          else AList.update k (task_id task, now) (createTaskIdempotency st))
       \<and> teamId st' = teamId st"
proof -
  have app: "taskFiles (writeTask t st) = taskFiles st @ [t]"
    if "task_id t = buildTaskId (foldl (\<lambda>maxValue task.
            max maxValue (parseTaskNumericId (task_id task))) 0 (taskFiles st) + 1)" for t
    using that minted_taskId_fresh [of _ "taskFiles st"] by (auto simp: writeTask_def)
  have la: "list_all (\<lambda>depId. case find (\<lambda>task. task_id task = depId) (taskFiles st) of
                          None \<Rightarrow> False | Some dep \<Rightarrow> task_status dep = completed) ds
        = (\<forall>depId \<in> set ds. \<exists>dep. readTask st depId = Some dep \<and> task_status dep = completed)" for ds
    by (auto simp: list_all_iff readTask_def split: option.splits)
  from assms have tid: "tid = teamId st"
    by (cases "tid = teamId st") (simp_all add: createTask_def assertTeamId_def)
  from assms tid have ti: "trim (input_title input) \<noteq> []"
    by (cases "trim (input_title input) = []") (simp_all add: createTask_def assertTeamId_def Let_def)
  define existing where "existing =
     (case key of None \<Rightarrow> None
      | Some k \<Rightarrow> if k = [] then None
                  else (case map_of (createTaskIdempotency st) k of None \<Rightarrow> None
                        | Some (existingTaskId, _) \<Rightarrow> readTask st existingTaskId))"
  have ex: "existing = None"
  proof (cases existing)
    case (Some t)
    with assms tid ti show ?thesis
      unfolding createTask_def Let_def assertTeamId_def existing_def by simp
  qed simp
  define new where "new = \<lparr>task_id = buildTaskId (foldl (\<lambda>maxValue task.
            max maxValue (parseTaskNumericId (task_id task))) 0 (taskFiles st) + 1),
       task_title = trim (input_title input),
       task_description = (case input_description input of None \<Rightarrow> [] | Some d \<Rightarrow> trim d),
       task_status = (if uniq (filterBoolean (map trim
            (case input_deps input of None \<Rightarrow> [] | Some ds \<Rightarrow> ds))) \<noteq> []
            \<and> \<not> (\<forall>depId \<in> set (uniq (filterBoolean (map trim
            (case input_deps input of None \<Rightarrow> [] | Some ds \<Rightarrow> ds)))).
                       \<exists>dep. readTask st depId = Some dep \<and> task_status dep = completed)
           then blocked else pending),
       task_owner = None,
       task_deps = uniq (filterBoolean (map trim
            (case input_deps input of None \<Rightarrow> [] | Some ds \<Rightarrow> ds))),
       task_resources = uniq (filterBoolean (map normalizePathPrefix
            (case input_resources input of None \<Rightarrow> [] | Some rs \<Rightarrow> rs))),
       task_lease = None, task_epoch = 0,
       task_timestamps = \<lparr>createdAt = now, startedAt = None,
                           completedAt = None, failedAt = None\<rparr>\<rparr>"
  define st2 where "st2 = (case key of None \<Rightarrow> writeTask new st
         | Some k \<Rightarrow> if k = [] then writeTask new st
              else (writeTask new st)\<lparr>createTaskIdempotency :=
                       AList.update k (task_id new, now) (createTaskIdempotency st)\<rparr>)"
  have eq: "createTask tid input key now st
        = (Inr (new, True), appendAuditEvent ''teamd'' ''task_created'' [(''taskId'', task_id new)] now st2)"
    unfolding createTask_def Let_def assertTeamId_def listTasksUnsafe_def la
    using ex tid ti
    by (auto simp: existing_def new_def st2_def split: option.splits)
  with assms have t: "task = new"
    and s: "st' = appendAuditEvent ''teamd'' ''task_created'' [(''taskId'', task_id new)] now st2"
    by auto
  have i: "task_id new = buildTaskId (foldl (\<lambda>maxValue task.
            max maxValue (parseTaskNumericId (task_id task))) 0 (taskFiles st) + 1)"
    by (simp add: new_def)
  have tf: "taskFiles st2 = taskFiles st @ [new]"
    using app [OF i] by (simp add: st2_def split: option.splits)
  have idem: "createTaskIdempotency st2 = (case key of
               None \<Rightarrow> createTaskIdempotency st
             | Some k \<Rightarrow> if k = [] then createTaskIdempotency st
                          else AList.update k (task_id new, now) (createTaskIdempotency st))"
    by (simp add: st2_def split: option.splits)
  have tm: "teamId st2 = teamId st"
    by (simp add: st2_def split: option.splits)
  show ?thesis
    unfolding t s using tid ti tf idem tm
    by (simp add: new_def)
qed



section \<open>Dependencies\<close>

lemma createTask_stores:
  assumes "createTask tid input key now st = (Inr (task, True), st')"
  shows "readTask st' (task_id task) = Some task"
proof -
  from createTask_created [OF assms] have tf: "taskFiles st' = taskFiles st @ [task]"
    and i: "task_id task = buildTaskId (foldl (\<lambda>maxValue task.
            max maxValue (parseTaskNumericId (task_id task))) 0 (taskFiles st) + 1)"
    by simp_all
  have "\<not> (\<exists>t \<in> set (taskFiles st). task_id t = task_id task)"
    unfolding i using minted_taskId_fresh by blast
  then show ?thesis
    unfolding readTask_def tf by (simp add: find_append_miss)
qed

lemma unlockDependents_completed:
  assumes "distinct (map task_id (taskFiles st))"
  shows "(\<exists>dep. readTask (unlockDependents c a now st) d = Some dep \<and> task_status dep = completed)
       = (\<exists>dep. readTask st d = Some dep \<and> task_status dep = completed)"
  unfolding unlockDependents_readTask [OF assms]
  by (auto split: option.splits)

text \<open>
  Claim C4. A task that \<^verbatim>\<open>createTask\<close> creates is pending if its list of dependencies is
  empty or every dependency names a task on disk whose status is \<^verbatim>\<open>completed\<close>, and it
  is blocked otherwise. After a successful \<^verbatim>\<open>completeTask\<close>, every other task that was
  blocked, lists the completed task as a dependency and has all its dependencies
  completed by now is pending, and every other task is as it was. After a successful
  \<^verbatim>\<open>failTask\<close> every other task is as it was. (The task files of a directory have
  distinct names.)
\<close>

theorem dependencies_block_and_unblock:
  assumes "distinct (map task_id (taskFiles st))"
  shows
   "(\<forall>task st'. createTask (teamId st) input key now st = (Inr (task, True), st') \<longrightarrow>
        task_status task =
          (if task_deps task = []
              \<or> (\<forall>depId \<in> set (task_deps task).
                    \<exists>dep. readTask st depId = Some dep \<and> task_status dep = completed)
           then pending else blocked)
        \<and> readTask st' (task_id task) = Some task)
  \<and> (\<forall>final st'. completeTask (teamId st) taskId agentId epoch now st = (Inr final, st') \<longrightarrow>
        (\<forall>t \<in> set (taskFiles st). task_id t \<noteq> task_id final \<longrightarrow>
           readTask st' (task_id t) =
             Some (if task_status t = blocked \<and> task_id final \<in> set (task_deps t)
                      \<and> (\<forall>depId \<in> set (task_deps t).
                            \<exists>dep. readTask st' depId = Some dep \<and> task_status dep = completed)
                   then t\<lparr>task_status := pending\<rparr> else t)))
  \<and> (\<forall>final st'. failTask (teamId st) taskId agentId epoch now st = (Inr final, st') \<longrightarrow>
        (\<forall>t \<in> set (taskFiles st). task_id t \<noteq> task_id final \<longrightarrow>
           readTask st' (task_id t) = Some t))"
proof (intro conjI allI impI ballI)
  fix task st'
  assume c: "createTask (teamId st) input key now st = (Inr (task, True), st')"
  from createTask_created [OF c]
  show "task_status task =
          (if task_deps task = []
              \<or> (\<forall>depId \<in> set (task_deps task).
                    \<exists>dep. readTask st depId = Some dep \<and> task_status dep = completed)
           then pending else blocked)"
    by auto
  from c show "readTask st' (task_id task) = Some task"
    by (rule createTask_stores)
next
  fix final st' t
  assume c: "completeTask (teamId st) taskId agentId epoch now st = (Inr final, st')"
    and t: "t \<in> set (taskFiles st)" and ne: "task_id t \<noteq> task_id final"
  from completeTask_success [OF c] obtain st1 where
    f: "finalizeTask taskId agentId epoch completed now st = (Inr final, st1)"
    and s: "st' = unlockDependents (task_id final) agentId now st1" by blast
  from finalizeTask_success [OF f] have tf: "taskFiles st1 = taskFiles (writeTask final st)"
    by auto
  have d1: "distinct (map task_id (taskFiles st1))"
    unfolding tf using assms by (rule distinct_writeTask)
  have "readTask st1 (task_id t) = readTask (writeTask final st) (task_id t)"
    using tf by (rule readTask_cong)
  also have "\<dots> = readTask st (task_id t)"
    using ne by simp
  also have "\<dots> = Some t"
    using assms t by (rule readTask_distinct)
  finally have r1: "readTask st1 (task_id t) = Some t" .
  show "readTask st' (task_id t) =
             Some (if task_status t = blocked \<and> task_id final \<in> set (task_deps t)
                      \<and> (\<forall>depId \<in> set (task_deps t).
                            \<exists>dep. readTask st' depId = Some dep \<and> task_status dep = completed)
                   then t\<lparr>task_status := pending\<rparr> else t)"
    unfolding s unlockDependents_completed [OF d1]
    by (simp add: unlockDependents_readTask [OF d1] r1)
next
  fix final st' t
  assume c: "failTask (teamId st) taskId agentId epoch now st = (Inr final, st')"
    and t: "t \<in> set (taskFiles st)" and ne: "task_id t \<noteq> task_id final"
  from failTask_success [OF c] have
    f: "finalizeTask taskId agentId epoch failed now st = (Inr final, st')" by blast
  from finalizeTask_success [OF f] have tf: "taskFiles st' = taskFiles (writeTask final st)"
    by auto
  have "readTask st' (task_id t) = readTask (writeTask final st) (task_id t)"
    using tf by (rule readTask_cong)
  also have "\<dots> = readTask st (task_id t)"
    using ne by simp
  also have "\<dots> = Some t"
    using assms t by (rule readTask_distinct)
  finally show "readTask st' (task_id t) = Some t" .
qed


theorem dependencies_block_and_unblock_witness:
  "distinct (map task_id (taskFiles exampleBlocked))
   \<and> map_option task_status (readTask exampleBlocked ''task-0002'') = Some blocked
   \<and> map_option task_status
         (readTask (snd (completeTask ''alpha'' ''task-0001'' ''worker_a'' 1 3000 exampleBlocked))
            ''task-0001'') = Some completed
   \<and> map_option task_status
         (readTask (snd (completeTask ''alpha'' ''task-0001'' ''worker_a'' 1 3000 exampleBlocked))
            ''task-0002'') = Some pending"
proof -
  let ?r = "completeTask ''alpha'' ''task-0001'' ''worker_a'' 1 3000 exampleBlocked"
  let ?final = "\<lparr>task_id = ''task-0001'', task_title = ''write io'', task_description = [],
      task_status = completed, task_owner = Some ''worker_a'', task_deps = [],
      task_resources = [''src/io''], task_lease = None, task_epoch = 1,
      task_timestamps = \<lparr>createdAt = 1000, startedAt = Some 2000,
                         completedAt = Some 3000, failedAt = None\<rparr>\<rparr>"
  let ?dependent = "\<lparr>task_id = ''task-0002'', task_title = ''use io'', task_description = [],
      task_status = blocked, task_owner = None, task_deps = [''task-0001''],
      task_resources = [], task_lease = None, task_epoch = 0,
      task_timestamps = \<lparr>createdAt = 1100, startedAt = None,
                         completedAt = None, failedAt = None\<rparr>\<rparr>"
  have d: "distinct (map task_id (taskFiles exampleBlocked))" by code_simp
  have t: "teamId exampleBlocked = ''alpha''" by code_simp
  have b: "readTask exampleBlocked ''task-0002'' = Some ?dependent" by code_simp
  have m: "?dependent \<in> set (taskFiles exampleBlocked)" by code_simp
  have "fst ?r = Inr ?final" by code_simp
  then have c: "completeTask (teamId exampleBlocked) ''task-0001'' ''worker_a'' 1 3000 exampleBlocked
                 = (Inr ?final, snd ?r)"
    unfolding t by (metis prod.collapse)
  have f: "readTask (snd ?r) ''task-0001'' = Some ?final" by code_simp
  from dependencies_block_and_unblock [OF d, of exampleInput None 3000 "''task-0001''" "''worker_a''" 1]
    c m
  have "readTask (snd ?r) (task_id ?dependent) =
          Some (if task_status ?dependent = blocked \<and> task_id ?final \<in> set (task_deps ?dependent)
                   \<and> (\<forall>depId \<in> set (task_deps ?dependent).
                         \<exists>dep. readTask (snd ?r) depId = Some dep \<and> task_status dep = completed)
                then ?dependent\<lparr>task_status := pending\<rparr> else ?dependent)"
    by fastforce
  with d b f show ?thesis by simp
qed

section \<open>Idempotent creation\<close>





section \<open>One store, one team\<close>

text \<open>
  Claim C10. Every public operation of the store that takes a team identifier, called
  with an identifier other than the one the store was constructed with, fails with
  404 \<^verbatim>\<open>TEAM_NOT_FOUND\<close>, whatever its other arguments and whatever the store holds, and
  the operations that can write leave the store as it was.
\<close>

theorem foreign_team_is_not_found:
  assumes "tid \<noteq> teamId st"
  shows "createTeam (team\<lparr>team_teamId := tid\<rparr>) now st = (Inl (TeamdStoreError 404 ''TEAM_NOT_FOUND''), st)
       \<and> getTeam tid st = Inl (TeamdStoreError 404 ''TEAM_NOT_FOUND'')
       \<and> createTask tid input key now st = (Inl (TeamdStoreError 404 ''TEAM_NOT_FOUND''), st)
       \<and> listTasks tid st = (Inl (TeamdStoreError 404 ''TEAM_NOT_FOUND''), st)
       \<and> getTask tid taskId st = (Inl (TeamdStoreError 404 ''TEAM_NOT_FOUND''), st)
       \<and> claimTask tid taskId agentId ttlMs now st = (Inl (TeamdStoreError 404 ''TEAM_NOT_FOUND''), st)
       \<and> renewTask tid taskId agentId epoch ttlMs now st = (Inl (TeamdStoreError 404 ''TEAM_NOT_FOUND''), st)
       \<and> completeTask tid taskId agentId epoch now st = (Inl (TeamdStoreError 404 ''TEAM_NOT_FOUND''), st)
       \<and> failTask tid taskId agentId epoch now st = (Inl (TeamdStoreError 404 ''TEAM_NOT_FOUND''), st)
       \<and> startThread tid start now st = (Inl (TeamdStoreError 404 ''TEAM_NOT_FOUND''), st)
       \<and> postThreadMessage tid threadId agentId message uuid now st
            = (Inl (TeamdStoreError 404 ''TEAM_NOT_FOUND''), st)
       \<and> readThreadTail tid threadId limit st = Inl (TeamdStoreError 404 ''TEAM_NOT_FOUND'')
       \<and> searchThreads tid query st = Inl (TeamdStoreError 404 ''TEAM_NOT_FOUND'')
       \<and> linkThreadToTask tid threadId taskId now st = (Inl (TeamdStoreError 404 ''TEAM_NOT_FOUND''), st)
       \<and> fetchInbox tid agentId since st = (Inl (TeamdStoreError 404 ''TEAM_NOT_FOUND''), st)
       \<and> canWrite fs tid agentId requestedPath now st = Inl (TeamdStoreError 404 ''TEAM_NOT_FOUND'')"
proof -
  have a: "assertTeamId st tid = Inl (TeamdStoreError 404 ''TEAM_NOT_FOUND'')"
    using assms by (simp add: assertTeamId_def)
  show ?thesis
    by (simp add: a createTeam_def getTeam_def createTask_def listTasks_def getTask_def
        claimTask_def renewTask_def completeTask_def failTask_def startThread_def
        postThreadMessage_def readThreadTail_def searchThreads_def linkThreadToTask_def
        fetchInbox_def canWrite_def)
qed

theorem foreign_team_is_not_found_witness:
  "''beta'' \<noteq> teamId exampleStore
   \<and> getTask ''beta'' ''task-0001'' exampleStore
       = (Inl (TeamdStoreError 404 ''TEAM_NOT_FOUND''), exampleStore)
   \<and> completeTask ''beta'' ''task-0001'' ''worker_a'' 1 2010 exampleStore
       = (Inl (TeamdStoreError 404 ''TEAM_NOT_FOUND''), exampleStore)
   \<and> fetchInbox ''beta'' ''worker_a'' None exampleStore
       = (Inl (TeamdStoreError 404 ''TEAM_NOT_FOUND''), exampleStore)"
proof -
  have h: "''beta'' \<noteq> teamId exampleStore"
    by (simp add: teamId_exampleStore)
  from foreign_team_is_not_found [OF h, of _ _ _ _ "''task-0001''" "''worker_a''"] h
  show ?thesis by simp
qed

section \<open>The write permission check\<close>

lemma resourceMatchesPath_nonempty:
  "resource \<noteq> [] \<Longrightarrow>
   resourceMatchesPath resource target
     = (target = resource \<or> startsWith target (resource @ ''/''))"
  by (simp add: resourceMatchesPath_def)

text \<open>
  Claim C6, as amended. Called with the team identifier of the store, \<^verbatim>\<open>canWrite\<close>
  returns a structured result; called with any other it fails with
  404 \<^verbatim>\<open>TEAM_NOT_FOUND\<close>. In a store none of whose tasks has an empty resource (as
  \<^verbatim>\<open>createTask\<close> stores them), the result is
  \<^verbatim>\<open>{allow: true, reason: "lease_active_for_resource"}\<close> if and only if the normalized
  path is not empty, \<^verbatim>\<open>safeJoin\<close> accepts it, and some task in progress has a lease that
  the agent holds and that has not expired, and a resource that is the normalized path or
  a prefix of it followed by a slash. Otherwise \<^verbatim>\<open>allow\<close> is false and the reason is
  \<^verbatim>\<open>invalid_path\<close> when the normalized path is empty, \<^verbatim>\<open>path_traversal_denied\<close> when
  \<^verbatim>\<open>safeJoin\<close> fails, and \<^verbatim>\<open>no_active_lease_for_path\<close> when no task matches.
\<close>

theorem canWrite_decision:
  assumes "\<forall>task \<in> set (taskFiles st). [] \<notin> set (task_resources task)"
  shows
   "(tid \<noteq> teamId st \<longrightarrow>
       canWrite fs tid agentId requestedPath now st = Inl (TeamdStoreError 404 ''TEAM_NOT_FOUND''))
  \<and> (\<exists>result. canWrite fs (teamId st) agentId requestedPath now st = Inr result)
  \<and> ((canWrite fs (teamId st) agentId requestedPath now st
         = Inr \<lparr>allow = True, reason = ''lease_active_for_resource''\<rparr>)
      = (normalizePathPrefix requestedPath \<noteq> []
         \<and> (\<exists>joined. safeJoin fs (teamDirPath st) (normalizePathPrefix requestedPath) = Inr joined)
         \<and> (\<exists>task \<in> set (taskFiles st).
               task_status task = in_progress
               \<and> (\<exists>lease. task_lease task = Some lease \<and> lease_holder lease = agentId
                           \<and> now < lease_expiresAt lease)
               \<and> (\<exists>resource \<in> set (task_resources task).
                     normalizePathPrefix requestedPath = resource
                     \<or> startsWith (normalizePathPrefix requestedPath) (resource @ ''/'')))))
  \<and> (normalizePathPrefix requestedPath = [] \<longrightarrow>
       canWrite fs (teamId st) agentId requestedPath now st
         = Inr \<lparr>allow = False, reason = ''invalid_path''\<rparr>)
  \<and> (normalizePathPrefix requestedPath \<noteq> []
       \<and> (\<exists>e. safeJoin fs (teamDirPath st) (normalizePathPrefix requestedPath) = Inl e) \<longrightarrow>
       canWrite fs (teamId st) agentId requestedPath now st
         = Inr \<lparr>allow = False, reason = ''path_traversal_denied''\<rparr>)
  \<and> (normalizePathPrefix requestedPath \<noteq> []
       \<and> (\<exists>joined. safeJoin fs (teamDirPath st) (normalizePathPrefix requestedPath) = Inr joined)
       \<and> \<not> (\<exists>task \<in> set (taskFiles st).
               task_status task = in_progress
               \<and> (\<exists>lease. task_lease task = Some lease \<and> lease_holder lease = agentId
                           \<and> now < lease_expiresAt lease)
               \<and> (\<exists>resource \<in> set (task_resources task).
                     normalizePathPrefix requestedPath = resource
                     \<or> startsWith (normalizePathPrefix requestedPath) (resource @ ''/''))) \<longrightarrow>
       canWrite fs (teamId st) agentId requestedPath now st
         = Inr \<lparr>allow = False, reason = ''no_active_lease_for_path''\<rparr>)"
proof -
  let ?p = "normalizePathPrefix requestedPath"
  have scan: "list_ex (\<lambda>task.
                        task_status task = in_progress
                        \<and> (case task_lease task of
                              None \<Rightarrow> False
                            | Some lease \<Rightarrow>
                                lease_holder lease = agentId
                                \<and> \<not> lease_expiresAt lease \<le> now
                                \<and> list_ex (\<lambda>resource. resourceMatchesPath resource ?p)
                                     (task_resources task)))
                      (listTasksUnsafe st)
      = (\<exists>task \<in> set (taskFiles st).
               task_status task = in_progress
               \<and> (\<exists>lease. task_lease task = Some lease \<and> lease_holder lease = agentId
                           \<and> now < lease_expiresAt lease)
               \<and> (\<exists>resource \<in> set (task_resources task).
                     ?p = resource \<or> startsWith ?p (resource @ ''/'')))"
    (is "?scan = ?spec")
  proof
    assume ?scan
    then obtain task lease resource where
      "task \<in> set (taskFiles st)" "task_status task = in_progress" "task_lease task = Some lease"
      "lease_holder lease = agentId" "now < lease_expiresAt lease"
      "resource \<in> set (task_resources task)" "resourceMatchesPath resource ?p"
      by (auto simp: list_ex_iff listTasksUnsafe_def split: option.splits)
    moreover from this assms have "resource \<noteq> []" by auto
    ultimately show ?spec
      using resourceMatchesPath_nonempty by blast
  next
    assume ?spec
    then obtain task lease resource where
      t: "task \<in> set (taskFiles st)" "task_status task = in_progress" "task_lease task = Some lease"
      "lease_holder lease = agentId" "now < lease_expiresAt lease"
      "resource \<in> set (task_resources task)"
      and m: "?p = resource \<or> startsWith ?p (resource @ ''/'')"
      by blast
    from t assms have "resource \<noteq> []" by auto
    with m have "resourceMatchesPath resource ?p"
      by (simp add: resourceMatchesPath_nonempty)
    with t show ?scan
      unfolding list_ex_iff listTasksUnsafe_def
      by (intro bexI [of _ task]) (auto intro: bexI [of _ resource])
  qed
  show ?thesis
    unfolding canWrite_def Let_def scan assertTeamId_def
    by (auto split: sum.splits)
qed

theorem canWrite_decision_witness:
  "(\<forall>task \<in> set (taskFiles exampleStore). [] \<notin> set (task_resources task)) = True
   \<and> canWrite exampleFs ''alpha'' ''worker_a'' ''./src/io/index.ts'' 2010 exampleStore
       = Inr \<lparr>allow = True, reason = ''lease_active_for_resource''\<rparr>
   \<and> canWrite exampleFs ''alpha'' ''worker_a'' ''/'' 2010 exampleStore
       = Inr \<lparr>allow = False, reason = ''invalid_path''\<rparr>
   \<and> canWrite exampleFs ''alpha'' ''worker_a'' ''evil/secret.txt'' 2010 exampleStore
       = Inr \<lparr>allow = False, reason = ''path_traversal_denied''\<rparr>
   \<and> canWrite exampleFs ''alpha'' ''worker_b'' ''src/io/index.ts'' 2010 exampleStore
       = Inr \<lparr>allow = False, reason = ''no_active_lease_for_path''\<rparr>"
proof -
  have h: "\<forall>task \<in> set (taskFiles exampleStore). [] \<notin> set (task_resources task)"
    by code_simp
  have t: "teamId exampleStore = ''alpha''" by code_simp
  have d: "teamDirPath exampleStore = ''/ws/alpha''" by code_simp
  have f: "taskFiles exampleStore = [exampleTask]"
    by (subst exampleStore_eq) simp
  have n1: "normalizePathPrefix ''./src/io/index.ts'' = ''src/io/index.ts''" by code_simp
  have n2: "normalizePathPrefix ''/'' = []" by code_simp
  have n3: "normalizePathPrefix ''evil/secret.txt'' = ''evil/secret.txt''" by code_simp
  have n4: "normalizePathPrefix ''src/io/index.ts'' = ''src/io/index.ts''" by code_simp
  have j1: "safeJoin exampleFs ''/ws/alpha'' ''src/io/index.ts'' = Inr ''/ws/alpha/src/io/index.ts''"
    by code_simp
  have j3: "safeJoin exampleFs ''/ws/alpha'' ''evil/secret.txt'' = Inl (IoError SYMLINK_ESCAPE)"
    by code_simp
  have s: "startsWith ''src/io/index.ts'' ''src/io/''" by code_simp
  from canWrite_decision [OF h, of "''alpha''" exampleFs "''worker_a''" "''./src/io/index.ts''" 2010]
  have 1: "canWrite exampleFs ''alpha'' ''worker_a'' ''./src/io/index.ts'' 2010 exampleStore
       = Inr \<lparr>allow = True, reason = ''lease_active_for_resource''\<rparr>"
    unfolding t d n1 j1 f using s by (simp add: exampleTask_def)
  from canWrite_decision [OF h, of "''alpha''" exampleFs "''worker_a''" "''/''" 2010]
  have 2: "canWrite exampleFs ''alpha'' ''worker_a'' ''/'' 2010 exampleStore
       = Inr \<lparr>allow = False, reason = ''invalid_path''\<rparr>"
    unfolding t d n2 by simp
  from canWrite_decision [OF h, of "''alpha''" exampleFs "''worker_a''" "''evil/secret.txt''" 2010]
  have 3: "canWrite exampleFs ''alpha'' ''worker_a'' ''evil/secret.txt'' 2010 exampleStore
       = Inr \<lparr>allow = False, reason = ''path_traversal_denied''\<rparr>"
    unfolding t d n3 j3 by simp
  from canWrite_decision [OF h, of "''alpha''" exampleFs "''worker_b''" "''src/io/index.ts''" 2010]
  have 4: "canWrite exampleFs ''alpha'' ''worker_b'' ''src/io/index.ts'' 2010 exampleStore
       = Inr \<lparr>allow = False, reason = ''no_active_lease_for_path''\<rparr>"
    unfolding t d n4 j1 f by (simp add: exampleTask_def)
  from h 1 2 3 4 show ?thesis by simp
qed

text \<open>
  The claim as stated, that \<^verbatim>\<open>canWrite\<close> never throws, fails for a team identifier
  that is not the one of the store.
\<close>

theorem canWrite_throws_for_foreign_team:
  "canWrite exampleFs ''beta'' ''worker_a'' ''src/io/index.ts'' 2010 exampleStore
     = Inl (TeamdStoreError 404 ''TEAM_NOT_FOUND'')"
  by code_simp


section \<open>Splitting and joining\<close>

lemma splitOn_nonempty [simp]: "splitOn c s \<noteq> []"
  by (induction s) (auto split: list.splits)

lemma splitOn_Cons_sep [simp]: "splitOn c (c # s) = [] # splitOn c s"
  by simp

lemma splitOn_Cons_other:
  "x \<noteq> c \<Longrightarrow> splitOn c (x # s) = (x # hd (splitOn c s)) # tl (splitOn c s)"
  by (cases "splitOn c s") (use splitOn_nonempty [of c s] in auto)

lemma splitOn_no_sep: "c \<notin> set s \<Longrightarrow> splitOn c s = [s]"
  by (induction s) (auto split: list.splits)

lemma splitOn_segments_no_sep: "seg \<in> set (splitOn c s) \<Longrightarrow> c \<notin> set seg"
proof (induction s arbitrary: seg)
  case Nil
  then show ?case by simp
next
  case (Cons x s)
  show ?case
  proof (cases "x = c")
    case True
    with Cons show ?thesis by auto
  next
    case False
    obtain w ws where w: "splitOn c s = w # ws"
      using splitOn_nonempty [of c s] by (cases "splitOn c s") auto
    with Cons.prems False have "seg = x # w \<or> seg \<in> set ws" by auto
    with Cons.IH [of w] Cons.IH [of seg] w False show ?thesis by auto
  qed
qed

lemma splitOn_append_sep: "splitOn c (a @ c # b) = splitOn c a @ splitOn c b"
proof (induction a)
  case Nil
  then show ?case by simp
next
  case (Cons x a)
  show ?case
  proof (cases "x = c")
    case True
    with Cons show ?thesis by simp
  next
    case False
    obtain w ws where w: "splitOn c a = w # ws"
      using splitOn_nonempty [of c a] by (cases "splitOn c a") auto
    with Cons False show ?thesis by simp
  qed
qed

lemma joinWith_Cons: "xs \<noteq> [] \<Longrightarrow> joinWith s (x # xs) = x @ s @ joinWith s xs"
  by (cases xs) simp_all

lemma joinWith_append:
  "xs \<noteq> [] \<Longrightarrow> ys \<noteq> [] \<Longrightarrow> joinWith s (xs @ ys) = joinWith s xs @ s @ joinWith s ys"
proof (induction xs)
  case Nil
  then show ?case by simp
next
  case (Cons x xs)
  show ?case
  proof (cases "xs = []")
    case True
    with Cons.prems show ?thesis by (simp add: joinWith_Cons)
  next
    case False
    with Cons show ?thesis by (simp add: joinWith_Cons)
  qed
qed

lemma joinWith_splitOn: "joinWith [c] (splitOn c s) = s"
proof (induction s)
  case Nil
  then show ?case by simp
next
  case (Cons x s)
  obtain w ws where w: "splitOn c s = w # ws"
    using splitOn_nonempty [of c s] by (cases "splitOn c s") auto
  show ?case
  proof (cases "x = c")
    case True
    with Cons show ?thesis by (simp add: joinWith_Cons)
  next
    case False
    with Cons w show ?thesis by (cases ws) auto
  qed
qed

lemma splitOn_joinWith:
  "segs \<noteq> [] \<Longrightarrow> \<forall>seg \<in> set segs. c \<notin> set seg \<Longrightarrow> splitOn c (joinWith [c] segs) = segs"
proof (induction segs)
  case Nil
  then show ?case by simp
next
  case (Cons x segs)
  show ?case
  proof (cases "segs = []")
    case True
    with Cons.prems show ?thesis by (simp add: splitOn_no_sep)
  next
    case False
    with Cons have "splitOn c (joinWith [c] segs) = segs" by simp
    moreover have "splitOn c x = [x]" using Cons.prems by (simp add: splitOn_no_sep)
    ultimately show ?thesis
      using False splitOn_append_sep [of c x "joinWith [c] segs"]
      by (simp add: joinWith_Cons)
  qed
qed

section \<open>Components that climb\<close>

lemma includesStr_prefix: "includesStr (p @ b) p"
proof (cases "p @ b")
  case Nil
  then show ?thesis by simp
next
  case (Cons x xs)
  have "startsWith (p @ b) p" by (simp add: startsWith_def)
  then show ?thesis unfolding Cons by simp
qed

lemma includesStr_intro: "includesStr (a @ p @ b) p"
  by (induction a) (simp_all add: includesStr_prefix)

lemma includesStr_elim: "includesStr s p \<Longrightarrow> \<exists>a b. s = a @ p @ b"
proof (induction s)
  case Nil
  then show ?case by simp
next
  case (Cons x s)
  from Cons.prems have "startsWith (x # s) p \<or> includesStr s p" by simp
  then show ?case
  proof
    assume "startsWith (x # s) p"
    then have "x # s = [] @ p @ drop (length p) (x # s)"
      unfolding startsWith_def by (metis append_Nil append_take_drop_id)
    then show ?thesis by blast
  next
    assume "includesStr s p"
    with Cons.IH obtain a b where "s = a @ p @ b" by blast
    then have "x # s = (x # a) @ p @ b" by simp
    then show ?thesis by blast
  qed
qed

lemma startsWith_elim: "startsWith s p \<Longrightarrow> \<exists>b. s = p @ b"
  unfolding startsWith_def by (metis append_take_drop_id)

lemma endsWith_elim: "endsWith s p \<Longrightarrow> \<exists>a. s = a @ p"
  unfolding endsWith_def by (metis append_take_drop_id)

lemma startsWith_intro: "startsWith (p @ b) p"
  by (simp add: startsWith_def)

lemma endsWith_intro: "endsWith (a @ p) p"
  by (simp add: endsWith_def)

text \<open>
  The four tests of assertNoTraversal on the normalized path say that one of its
  components is the parent directory.
\<close>

lemma dotdot_component_iff:
  "(s = ''..'' \<or> startsWith s ''../'' \<or> includesStr s ''/../'' \<or> endsWith s ''/..'')
     = (''..'' \<in> set (splitOn (CHR ''/'') s))"
proof
  assume "s = ''..'' \<or> startsWith s ''../'' \<or> includesStr s ''/../'' \<or> endsWith s ''/..''"
  then consider "s = ''..''" | b where "s = ''../'' @ b" | a b where "s = a @ ''/../'' @ b"
    | a where "s = a @ ''/..''"
    using startsWith_elim includesStr_elim endsWith_elim by blast
  then show "''..'' \<in> set (splitOn (CHR ''/'') s)"
  proof cases
    case 1
    then show ?thesis by simp
  next
    case 2
    then have "s = ''..'' @ CHR ''/'' # b" by simp
    then show ?thesis by (simp only: splitOn_append_sep) simp
  next
    case 3
    then have "s = a @ CHR ''/'' # (''..'' @ CHR ''/'' # b)" by simp
    then show ?thesis by (simp only: splitOn_append_sep) simp
  next
    case 4
    then have "s = a @ CHR ''/'' # ''..''" by simp
    then show ?thesis by (simp only: splitOn_append_sep) simp
  qed
next
  assume "''..'' \<in> set (splitOn (CHR ''/'') s)"
  then obtain pre post where sp: "splitOn (CHR ''/'') s = pre @ ''..'' # post"
    by (meson split_list)
  have s: "s = joinWith ''/'' (pre @ ''..'' # post)"
    using joinWith_splitOn [of "CHR ''/''" s] sp by simp
  show "s = ''..'' \<or> startsWith s ''../'' \<or> includesStr s ''/../'' \<or> endsWith s ''/..''"
  proof (cases "pre = []")
    case True
    show ?thesis
    proof (cases "post = []")
      case True
      with \<open>pre = []\<close> s show ?thesis by simp
    next
      case False
      with \<open>pre = []\<close> s have "s = ''../'' @ joinWith ''/'' post"
        by (simp add: joinWith_Cons)
      then show ?thesis using startsWith_intro by metis
    qed
  next
    case False
    show ?thesis
    proof (cases "post = []")
      case True
      with False s have "s = joinWith ''/'' pre @ ''/..''"
        by (simp add: joinWith_append)
      then show ?thesis using endsWith_intro by metis
    next
      case post: False
      with False s have "s = joinWith ''/'' pre @ ''/../'' @ joinWith ''/'' post"
        by (simp add: joinWith_append joinWith_Cons)
      then show ?thesis using includesStr_intro by metis
    qed
  qed
qed

section \<open>Normalizing a path\<close>

lemma normalizeSegments_append:
  "normalizeSegments a res (xs @ ys) = normalizeSegments a (normalizeSegments a res xs) ys"
  by (induction xs arbitrary: res) auto

lemma normalizeSegments_clean:
  "\<forall>seg \<in> set segs. seg \<noteq> [] \<and> seg \<noteq> ''.'' \<and> seg \<noteq> ''..'' \<Longrightarrow>
   normalizeSegments a res segs = res @ segs"
  by (induction segs arbitrary: res) simp_all

lemma normalizeSegments_skip:
  "\<forall>seg \<in> set segs. seg = [] \<or> seg = ''.'' \<Longrightarrow> normalizeSegments a res segs = res"
  by (induction segs arbitrary: res) auto

lemma normalizeSegments_elements:
  assumes "seg \<in> set (normalizeSegments a res segs)"
  shows "seg \<in> set res \<or> seg = ''..'' \<and> a
         \<or> seg \<in> set segs \<and> seg \<noteq> [] \<and> seg \<noteq> ''.'' \<and> seg \<noteq> ''..''"
  using assms
proof (induction segs arbitrary: res)
  case Nil
  then show ?case by simp
next
  case (Cons x segs)
  consider (skip) "x = [] \<or> x = ''.''"
    | (pop) "x = ''..''" "res \<noteq> [] \<and> last res \<noteq> ''..''"
    | (up) "x = ''..''" "\<not> (res \<noteq> [] \<and> last res \<noteq> ''..'')" "a"
    | (drop) "x = ''..''" "\<not> (res \<noteq> [] \<and> last res \<noteq> ''..'')" "\<not> a"
    | (push) "x \<noteq> []" "x \<noteq> ''.''" "x \<noteq> ''..''"
    by blast
  then show ?case
  proof cases
    case skip
    with Cons.prems have "seg \<in> set (normalizeSegments a res segs)" by auto
    from Cons.IH [OF this] show ?thesis by auto
  next
    case pop
    with Cons.prems have "seg \<in> set (normalizeSegments a (butlast res) segs)" by simp
    from Cons.IH [OF this] show ?thesis by (auto dest: in_set_butlastD)
  next
    case up
    with Cons.prems have "seg \<in> set (normalizeSegments a (res @ [''..'']) segs)" by simp
    from Cons.IH [OF this] up show ?thesis by auto
  next
    case drop
    with Cons.prems have "seg \<in> set (normalizeSegments a res segs)" by simp
    from Cons.IH [OF this] show ?thesis by auto
  next
    case push
    with Cons.prems have "seg \<in> set (normalizeSegments a (res @ [x]) segs)" by simp
    from Cons.IH [OF this] push show ?thesis by auto
  qed
qed

lemma normalized_segment_nonempty:
  "seg \<in> set (normalizeSegments a [] segs) \<Longrightarrow> seg \<noteq> [] \<and> seg \<noteq> ''.''"
  by (drule normalizeSegments_elements) auto

lemma normalized_segment_no_slash:
  "seg \<in> set (normalizeSegments a [] (splitOn (CHR ''/'') s)) \<Longrightarrow> CHR ''/'' \<notin> set seg"
  by (drule normalizeSegments_elements) (auto dest: splitOn_segments_no_sep)

lemma joinWith_Nil_iff:
  "\<forall>seg \<in> set segs. seg \<noteq> [] \<Longrightarrow> (joinWith s segs = []) = (segs = [])"
proof (cases segs)
  case Nil
  then show ?thesis by simp
next
  case (Cons x xs)
  assume "\<forall>seg \<in> set segs. seg \<noteq> []"
  with Cons show ?thesis by (cases xs) auto
qed

lemma joinWith_hd:
  "segs \<noteq> [] \<Longrightarrow> hd segs \<noteq> [] \<Longrightarrow>
   joinWith s segs @ t \<noteq> [] \<and> hd (joinWith s segs @ t) = hd (hd segs)"
proof (cases segs)
  case Nil
  assume "segs \<noteq> []"
  with Nil show ?thesis by simp
next
  case (Cons x xs)
  assume "hd segs \<noteq> []"
  with Cons show ?thesis by (cases xs) auto
qed

lemma splitOn_snoc_sep: "splitOn c (a @ [c]) = splitOn c a @ [[]]"
  using splitOn_append_sep [of c a "[]"] by simp

text \<open>
  The normalization of a relative path: its normalized components joined by slashes,
  a single dot when there is none, and the trailing slash kept.
\<close>

lemma normalize_relative:
  assumes "\<not> isAbsolute relative"
  shows "normalize relative =
     (let ns = normalizeSegments True [] (splitOn (CHR ''/'') relative);
          trailing = (relative \<noteq> [] \<and> last relative = CHR ''/'')
      in if ns = [] then (if trailing then ''./'' else ''.'')
         else joinWith ''/'' ns @ (if trailing then ''/'' else []))"
proof (cases "relative = []")
  case True
  then show ?thesis by (simp add: normalize_def)
next
  case False
  have e: "(joinWith ''/'' (normalizeSegments True [] (splitOn (CHR ''/'') relative)) = [])
            = (normalizeSegments True [] (splitOn (CHR ''/'') relative) = [])"
    by (rule joinWith_Nil_iff) (auto dest: normalized_segment_nonempty)
  from False assms show ?thesis
    by (simp add: normalize_def normalizeString_def Let_def e)
qed

lemma splitOn_normalize_relative:
  assumes "\<not> isAbsolute relative"
  shows "\<exists>extra. splitOn (CHR ''/'') (normalize relative)
           = (if normalizeSegments True [] (splitOn (CHR ''/'') relative) = [] then [''.'']
              else normalizeSegments True [] (splitOn (CHR ''/'') relative)) @ extra
         \<and> set extra \<subseteq> {[]}"
proof -
  let ?ns = "normalizeSegments True [] (splitOn (CHR ''/'') relative)"
  let ?tr = "relative \<noteq> [] \<and> last relative = CHR ''/''"
  have ns: "splitOn (CHR ''/'') (joinWith ''/'' ?ns) = ?ns" if "?ns \<noteq> []"
    using that by (intro splitOn_joinWith) (auto dest: normalized_segment_no_slash)
  show ?thesis
  proof (cases "?ns = []")
    case True
    then show ?thesis
      unfolding normalize_relative [OF assms] Let_def
      by (cases ?tr) (auto intro: exI [of _ "[[]]"] exI [of _ "[]"])
  next
    case False
    show ?thesis
    proof (cases ?tr)
      case True
      have "splitOn (CHR ''/'') (joinWith ''/'' ?ns @ ''/'') = ?ns @ [[]]"
        using splitOn_snoc_sep [of "CHR ''/''" "joinWith ''/'' ?ns"] ns [OF False] by simp
      with True False show ?thesis
        unfolding normalize_relative [OF assms] Let_def by (intro exI [of _ "[[]]"]) simp
    next
      case tr: False
      with False ns [OF False] show ?thesis
        unfolding normalize_relative [OF assms] Let_def by (intro exI [of _ "[]"]) auto
    qed
  qed
qed

lemma dotdot_normalize_relative:
  assumes "\<not> isAbsolute relative"
  shows "(''..'' \<in> set (splitOn (CHR ''/'') (normalize relative)))
       = (''..'' \<in> set (normalizeSegments True [] (splitOn (CHR ''/'') relative)))"
proof -
  from splitOn_normalize_relative [OF assms] obtain extra where
    "splitOn (CHR ''/'') (normalize relative)
           = (if normalizeSegments True [] (splitOn (CHR ''/'') relative) = [] then [''.'']
              else normalizeSegments True [] (splitOn (CHR ''/'') relative)) @ extra"
    and "set extra \<subseteq> {[]}" by blast
  then show ?thesis by (auto split: if_splits)
qed

text \<open>
  Resolving an accepted relative path against an absolute root: the components of the
  root followed by the normalized components of the relative path.
\<close>

lemma resolve_relative:
  assumes "isAbsolute root" and "\<not> isAbsolute relative"
    and "''..'' \<notin> set (normalizeSegments True [] (splitOn (CHR ''/'') relative))"
  shows "resolve wd root (normalize relative)
       = CHR ''/'' # joinWith ''/'' (normalizeSegments False [] (splitOn (CHR ''/'') root)
                                     @ normalizeSegments True [] (splitOn (CHR ''/'') relative))"
proof -
  let ?ns = "normalizeSegments True [] (splitOn (CHR ''/'') relative)"
  let ?rs = "normalizeSegments False [] (splitOn (CHR ''/'') root)"
  let ?n = "normalize relative"
  from splitOn_normalize_relative [OF assms(2)] obtain extra where
    sp: "splitOn (CHR ''/'') ?n = (if ?ns = [] then [''.''] else ?ns) @ extra"
    and ex: "set extra \<subseteq> {[]}" by blast
  have "?n \<noteq> [] \<and> \<not> isAbsolute ?n"
  proof (cases "?ns = []")
    case True
    then show ?thesis
      unfolding normalize_relative [OF assms(2)] Let_def by (simp add: isAbsolute_def)
  next
    case False
    then have h: "hd ?ns \<in> set ?ns" by simp
    from normalized_segment_nonempty [OF h] normalized_segment_no_slash [OF h]
    have "hd ?ns \<noteq> []" and "hd (hd ?ns) \<noteq> CHR ''/''"
      by (auto simp: neq_Nil_conv)
    with joinWith_hd [OF False, of "''/''"] False show ?thesis
      unfolding normalize_relative [OF assms(2)] Let_def by (simp add: isAbsolute_def)
  qed
  then have nn: "?n \<noteq> []" and na: "\<not> isAbsolute ?n" by simp_all
  have clean: "\<forall>seg \<in> set ?ns. seg \<noteq> [] \<and> seg \<noteq> ''.'' \<and> seg \<noteq> ''..''"
    using assms(3) by (auto dest: normalized_segment_nonempty)
  have tail: "normalizeSegments False res (splitOn (CHR ''/'') ?n @ [[]]) = res @ ?ns" for res
  proof (cases "?ns = []")
    case True
    with sp ex have "\<forall>seg \<in> set (splitOn (CHR ''/'') ?n @ [[]]). seg = [] \<or> seg = ''.''"
      by auto
    from normalizeSegments_skip [OF this] True show ?thesis by simp
  next
    case False
    have "\<forall>seg \<in> set (extra @ [[]]). seg = [] \<or> seg = ''.''" using ex by auto
    from normalizeSegments_skip [OF this] False sp
    show ?thesis
      by (simp add: normalizeSegments_append normalizeSegments_clean [OF clean])
  qed
  have "splitOn (CHR ''/'') (root @ ''/'' @ ?n @ ''/'')
          = splitOn (CHR ''/'') root @ splitOn (CHR ''/'') ?n @ [[]]"
    using splitOn_append_sep [of "CHR ''/''" root "?n @ ''/''"]
      splitOn_snoc_sep [of "CHR ''/''" ?n] by simp
  moreover have "normalizeSegments False []
            (splitOn (CHR ''/'') root @ (splitOn (CHR ''/'') ?n @ [[]]))
          = normalizeSegments False ?rs (splitOn (CHR ''/'') ?n @ [[]])"
    by (rule normalizeSegments_append)
  ultimately have "normalizeSegments False [] (splitOn (CHR ''/'') (root @ ''/'' @ ?n @ ''/''))
          = ?rs @ ?ns"
    using tail [of ?rs] by simp
  with assms(1) nn na show ?thesis
    by (simp add: resolve_def Let_def normalizeString_def isAbsolute_def)
qed

section \<open>The safe join\<close>

lemma checkSegments_escape:
  assumes "p \<in> set (examinedSegments fs root current parts)"
    and "lstat_isSymbolicLink fs p = Inr True" and "realpath fs p = Inr target"
    and "\<not> isWithinRoot root target"
  shows "checkSegments fs root current parts = Inl (IoError SYMLINK_ESCAPE)"
  using assms(1)
proof (induction parts arbitrary: current)
  case Nil
  then show ?case by simp
next
  case (Cons part parts)
  let ?next = "join current part"
  show ?case
  proof (cases "p = ?next")
    case True
    with assms(2-4) show ?thesis by (simp add: Let_def)
  next
    case False
    with Cons.prems have rest: "p \<in> set (case lstat_isSymbolicLink fs ?next of
            Inl code \<Rightarrow> []
          | Inr isSymbolicLink \<Rightarrow>
              if isSymbolicLink then
                (case realpath fs ?next of
                   Inl code \<Rightarrow> []
                 | Inr linkTarget \<Rightarrow>
                     if \<not> isWithinRoot root linkTarget then []
                     else examinedSegments fs root linkTarget parts)
              else examinedSegments fs root ?next parts)"
      by (simp add: Let_def)
    then obtain b where l: "lstat_isSymbolicLink fs ?next = Inr b"
      by (cases "lstat_isSymbolicLink fs ?next") auto
    show ?thesis
    proof (cases b)
      case True
      with rest l obtain linkTarget where r: "realpath fs ?next = Inr linkTarget"
        by (cases "realpath fs ?next") auto
      with rest l True have w: "isWithinRoot root linkTarget"
        and m: "p \<in> set (examinedSegments fs root linkTarget parts)"
        by (auto split: if_splits)
      from Cons.IH [OF m] l True r w show ?thesis by (simp add: Let_def)
    next
      case False
      with rest l have m: "p \<in> set (examinedSegments fs root ?next parts)" by simp
      from Cons.IH [OF m] l False show ?thesis by (simp add: Let_def)
    qed
  qed
qed

lemma safeJoin_success:
  assumes "safeJoin fs teamRoot relative = Inr joined"
  shows "assertNoTraversal relative = Inr ()
       \<and> (\<exists>rootRealPath. realpath fs teamRoot = Inr rootRealPath
            \<and> joined = resolve (cwd fs) rootRealPath (normalize relative)
            \<and> isWithinRoot rootRealPath joined
            \<and> checkSegments fs rootRealPath rootRealPath
                 (filterBoolean (splitOn (CHR ''/'') (normalize relative))) = Inr ())"
  using assms
  by (auto simp: safeJoin_def Let_def split: sum.splits if_splits)

lemma assertNoTraversal_iff:
  "(assertNoTraversal relative = Inr ())
     = (\<not> isAbsolute relative \<and> ''..'' \<notin> set (splitOn (CHR ''/'') (normalize relative)))"
  unfolding assertNoTraversal_def Let_def dotdot_component_iff by auto

lemma assertNoTraversal_cases:
  "assertNoTraversal relative = Inr () \<or> assertNoTraversal relative = Inl (IoError PATH_TRAVERSAL)"
  by (simp add: assertNoTraversal_def Let_def)

text \<open>
  Claim C7, as amended. \<^verbatim>\<open>safeJoin\<close> rejects an absolute input, and an input whose
  normalization has a parent directory component, with \<^verbatim>\<open>PATH_TRAVERSAL\<close>. When the
  lexical tests pass and a path that the walk examines is a symbolic link whose real
  target lies outside the real path of the root, it fails with \<^verbatim>\<open>SYMLINK_ESCAPE\<close>. On
  success the input is relative, its normalized components hold no parent directory, and
  the result is the real path of the root resolved with the normalized input: for an
  absolute real path, a slash followed by the components of the root and then the
  normalized components of the input, joined by slashes. The result is the real path of
  the root or lies below it, and no path examined is a symbolic link that escapes.
\<close>

theorem safeJoin_contract:
  "(isAbsolute relative \<longrightarrow> safeJoin fs teamRoot relative = Inl (IoError PATH_TRAVERSAL))
 \<and> (''..'' \<in> set (splitOn (CHR ''/'') (normalize relative)) \<longrightarrow>
       safeJoin fs teamRoot relative = Inl (IoError PATH_TRAVERSAL))
 \<and> (\<forall>rootRealPath p target.
       \<not> isAbsolute relative \<and> ''..'' \<notin> set (splitOn (CHR ''/'') (normalize relative))
       \<and> realpath fs teamRoot = Inr rootRealPath
       \<and> isWithinRoot rootRealPath (resolve (cwd fs) rootRealPath (normalize relative))
       \<and> p \<in> set (examinedSegments fs rootRealPath rootRealPath
                      (filterBoolean (splitOn (CHR ''/'') (normalize relative))))
       \<and> lstat_isSymbolicLink fs p = Inr True \<and> realpath fs p = Inr target
       \<and> \<not> isWithinRoot rootRealPath target \<longrightarrow>
       safeJoin fs teamRoot relative = Inl (IoError SYMLINK_ESCAPE))
 \<and> (\<forall>joined. safeJoin fs teamRoot relative = Inr joined \<longrightarrow>
       \<not> isAbsolute relative
       \<and> ''..'' \<notin> set (normalizeSegments True [] (splitOn (CHR ''/'') relative))
       \<and> (\<exists>rootRealPath. realpath fs teamRoot = Inr rootRealPath
            \<and> joined = resolve (cwd fs) rootRealPath (normalize relative)
            \<and> isWithinRoot rootRealPath joined
            \<and> (isAbsolute rootRealPath \<longrightarrow>
                 joined = CHR ''/'' # joinWith ''/''
                   (normalizeSegments False [] (splitOn (CHR ''/'') rootRealPath)
                    @ normalizeSegments True [] (splitOn (CHR ''/'') relative)))
            \<and> (\<forall>p \<in> set (examinedSegments fs rootRealPath rootRealPath
                              (filterBoolean (splitOn (CHR ''/'') (normalize relative)))).
                  \<not> (lstat_isSymbolicLink fs p = Inr True
                     \<and> (\<exists>target. realpath fs p = Inr target
                                  \<and> \<not> isWithinRoot rootRealPath target)))))"
proof (intro conjI allI impI)
  assume "isAbsolute relative"
  then show "safeJoin fs teamRoot relative = Inl (IoError PATH_TRAVERSAL)"
    by (simp add: safeJoin_def assertNoTraversal_def)
next
  assume "''..'' \<in> set (splitOn (CHR ''/'') (normalize relative))"
  then have "assertNoTraversal relative \<noteq> Inr ()"
    by (simp add: assertNoTraversal_iff)
  with assertNoTraversal_cases [of relative]
  show "safeJoin fs teamRoot relative = Inl (IoError PATH_TRAVERSAL)"
    by (auto simp: safeJoin_def)
next
  fix rootRealPath p target
  assume a: "\<not> isAbsolute relative \<and> ''..'' \<notin> set (splitOn (CHR ''/'') (normalize relative))
       \<and> realpath fs teamRoot = Inr rootRealPath
       \<and> isWithinRoot rootRealPath (resolve (cwd fs) rootRealPath (normalize relative))
       \<and> p \<in> set (examinedSegments fs rootRealPath rootRealPath
                      (filterBoolean (splitOn (CHR ''/'') (normalize relative))))
       \<and> lstat_isSymbolicLink fs p = Inr True \<and> realpath fs p = Inr target
       \<and> \<not> isWithinRoot rootRealPath target"
  then have n: "assertNoTraversal relative = Inr ()"
    by (simp add: assertNoTraversal_iff)
  from a have "checkSegments fs rootRealPath rootRealPath
                 (filterBoolean (splitOn (CHR ''/'') (normalize relative)))
               = Inl (IoError SYMLINK_ESCAPE)"
    by (intro checkSegments_escape [of p _ _ _ _ target]) simp_all
  with a n show "safeJoin fs teamRoot relative = Inl (IoError SYMLINK_ESCAPE)"
    by (simp add: safeJoin_def Let_def)
next
  fix joined
  assume s: "safeJoin fs teamRoot relative = Inr joined"
  from safeJoin_success [OF s] obtain rootRealPath where
    n: "assertNoTraversal relative = Inr ()"
    and r: "realpath fs teamRoot = Inr rootRealPath"
    and j: "joined = resolve (cwd fs) rootRealPath (normalize relative)"
    and w: "isWithinRoot rootRealPath joined"
    and c: "checkSegments fs rootRealPath rootRealPath
                 (filterBoolean (splitOn (CHR ''/'') (normalize relative))) = Inr ()"
    by blast
  from n show na: "\<not> isAbsolute relative"
    by (simp add: assertNoTraversal_iff)
  from n na show nd: "''..'' \<notin> set (normalizeSegments True [] (splitOn (CHR ''/'') relative))"
    by (simp add: assertNoTraversal_iff dotdot_normalize_relative)
  have e: "\<forall>p \<in> set (examinedSegments fs rootRealPath rootRealPath
                              (filterBoolean (splitOn (CHR ''/'') (normalize relative)))).
                  \<not> (lstat_isSymbolicLink fs p = Inr True
                     \<and> (\<exists>target. realpath fs p = Inr target
                                  \<and> \<not> isWithinRoot rootRealPath target))"
    using checkSegments_escape [of _ fs rootRealPath rootRealPath
        "filterBoolean (splitOn (CHR ''/'') (normalize relative))"] c
    by fastforce
  have x: "isAbsolute rootRealPath \<longrightarrow>
                 joined = CHR ''/'' # joinWith ''/''
                   (normalizeSegments False [] (splitOn (CHR ''/'') rootRealPath)
                    @ normalizeSegments True [] (splitOn (CHR ''/'') relative))"
    unfolding j using resolve_relative [OF _ na nd] by blast
  from r j w x e
  show "\<exists>rootRealPath. realpath fs teamRoot = Inr rootRealPath
            \<and> joined = resolve (cwd fs) rootRealPath (normalize relative)
            \<and> isWithinRoot rootRealPath joined
            \<and> (isAbsolute rootRealPath \<longrightarrow>
                 joined = CHR ''/'' # joinWith ''/''
                   (normalizeSegments False [] (splitOn (CHR ''/'') rootRealPath)
                    @ normalizeSegments True [] (splitOn (CHR ''/'') relative)))
            \<and> (\<forall>p \<in> set (examinedSegments fs rootRealPath rootRealPath
                              (filterBoolean (splitOn (CHR ''/'') (normalize relative)))).
                  \<not> (lstat_isSymbolicLink fs p = Inr True
                     \<and> (\<exists>target. realpath fs p = Inr target
                                  \<and> \<not> isWithinRoot rootRealPath target)))"
    by blast
qed

theorem safeJoin_contract_witness:
  "safeJoin exampleFs ''/ws/alpha'' ''/etc/passwd'' = Inl (IoError PATH_TRAVERSAL)
   \<and> safeJoin exampleFs ''/ws/alpha'' ''src/../../outside.json'' = Inl (IoError PATH_TRAVERSAL)
   \<and> safeJoin exampleFs ''/ws/alpha'' ''evil/secret.txt'' = Inl (IoError SYMLINK_ESCAPE)
   \<and> safeJoin exampleFs ''/ws/alpha'' ''src//io/./index.ts'' = Inr ''/ws/alpha/src/io/index.ts''
   \<and> isWithinRoot ''/ws/alpha'' ''/ws/alpha/src/io/index.ts''"
proof -
  have 1: "isAbsolute ''/etc/passwd''" by code_simp
  have 2: "''..'' \<in> set (splitOn (CHR ''/'') (normalize ''src/../../outside.json''))" by code_simp
  have 3: "\<not> isAbsolute ''evil/secret.txt''
       \<and> ''..'' \<notin> set (splitOn (CHR ''/'') (normalize ''evil/secret.txt''))
       \<and> realpath exampleFs ''/ws/alpha'' = Inr ''/ws/alpha''
       \<and> isWithinRoot ''/ws/alpha'' (resolve (cwd exampleFs) ''/ws/alpha'' (normalize ''evil/secret.txt''))
       \<and> ''/ws/alpha/evil'' \<in> set (examinedSegments exampleFs ''/ws/alpha'' ''/ws/alpha''
                      (filterBoolean (splitOn (CHR ''/'') (normalize ''evil/secret.txt''))))
       \<and> lstat_isSymbolicLink exampleFs ''/ws/alpha/evil'' = Inr True
       \<and> realpath exampleFs ''/ws/alpha/evil'' = Inr ''/outside''
       \<and> \<not> isWithinRoot ''/ws/alpha'' ''/outside''"
    by code_simp
  have 4: "safeJoin exampleFs ''/ws/alpha'' ''src//io/./index.ts'' = Inr ''/ws/alpha/src/io/index.ts''"
    by code_simp
  have 5: "realpath exampleFs ''/ws/alpha'' = Inr ''/ws/alpha''" by code_simp
  from safeJoin_contract [of "''/etc/passwd''" exampleFs "''/ws/alpha''"] 1
  have a: "safeJoin exampleFs ''/ws/alpha'' ''/etc/passwd'' = Inl (IoError PATH_TRAVERSAL)" by blast
  from safeJoin_contract [of "''src/../../outside.json''" exampleFs "''/ws/alpha''"] 2
  have b: "safeJoin exampleFs ''/ws/alpha'' ''src/../../outside.json'' = Inl (IoError PATH_TRAVERSAL)"
    by blast
  from safeJoin_contract [of "''evil/secret.txt''" exampleFs "''/ws/alpha''"] 3
  have c: "safeJoin exampleFs ''/ws/alpha'' ''evil/secret.txt'' = Inl (IoError SYMLINK_ESCAPE)"
    by blast
  from safeJoin_contract [of "''src//io/./index.ts''" exampleFs "''/ws/alpha''"] 4 5
  have d: "isWithinRoot ''/ws/alpha'' ''/ws/alpha/src/io/index.ts''"
    by auto
  from a b c 4 d show ?thesis by simp
qed

text \<open>
  The claim as stated, that an input with a parent directory component is rejected before
  normalization as well, fails: the component is tested on the normalized path only.
\<close>

theorem dotdot_inside_is_accepted:
  "''..'' \<in> set (splitOn (CHR ''/'') ''a/../b'')
   \<and> safeJoin exampleFs ''/ws/alpha'' ''a/../b'' = Inr ''/ws/alpha/b''"
  by code_simp

section \<open>The tolerant reader\<close>

lemma splitOn_lines:
  assumes "\<forall>line \<in> set lines. c \<notin> set line" and "c \<notin> set fragment"
  shows "splitOn c (concat (map (\<lambda>line. line @ [c]) lines) @ fragment) = lines @ [fragment]"
  using assms(1)
proof (induction lines)
  case Nil
  with assms(2) show ?case by (simp add: splitOn_no_sep)
next
  case (Cons l lines)
  then have l: "splitOn c l = [l]" by (simp add: splitOn_no_sep)
  from Cons have "splitOn c (concat (map (\<lambda>line. line @ [c]) lines) @ fragment) = lines @ [fragment]"
    by simp
  with l splitOn_append_sep [of c l "concat (map (\<lambda>line. line @ [c]) lines) @ fragment"]
  show ?case by simp
qed

lemma parseLines_append_empty: "parseLines parse (lines @ [[]]) = parseLines parse lines"
  by (induction lines) (simp_all split: option.splits sum.splits)

lemma parseLines_result:
  "parseLines parse lines =
     (if \<exists>line \<in> set lines. line \<noteq> [] \<and> parse line = None
      then Inl (IoError INVALID_JSONL_LINE)
      else Inr (List.map_filter parse (filter (\<lambda>line. line \<noteq> []) lines)))"
proof (induction lines)
  case Nil
  then show ?case by (simp add: List.map_filter_simps)
next
  case (Cons l lines)
  then show ?case
    by (cases "parse l") (auto simp: List.map_filter_simps)
qed

lemma endsWith_newline:
  "endsWith raw [c] = (raw \<noteq> [] \<and> last raw = c)"
proof (cases raw rule: rev_cases)
  case Nil
  then show ?thesis by (simp add: endsWith_def)
next
  case (snoc xs x)
  then show ?thesis by (auto simp: endsWith_def)
qed

text \<open>
  Claim C8, as amended. Let a file consist of lines that each end in a newline, followed
  by a fragment without a newline (every file does, and the fragment is empty when the
  last byte is a newline). \<^verbatim>\<open>readJsonlSafe\<close> discards the fragment, skips the empty
  lines, and returns the parsed values of all other lines in the order of the file; if
  \<^verbatim>\<open>JSON.parse\<close> rejects one of those lines, the call fails with an \<^verbatim>\<open>IoError\<close> whose
  code is \<^verbatim>\<open>INVALID_JSONL_LINE\<close>. This holds for whatever function parses a line.
\<close>

theorem tolerant_tail_read:
  assumes "\<forall>line \<in> set lines. CHR 0x0A \<notin> set line" and "CHR 0x0A \<notin> set fragment"
  shows "readJsonlSafe parse (Inr (concat (map (\<lambda>line. line @ [CHR 0x0A]) lines) @ fragment)) =
           (if \<exists>line \<in> set lines. line \<noteq> [] \<and> parse line = None
            then Inl (IoError INVALID_JSONL_LINE)
            else Inr (List.map_filter parse (filter (\<lambda>line. line \<noteq> []) lines)))"
proof -
  let ?raw = "concat (map (\<lambda>line. line @ [CHR 0x0A]) lines) @ fragment"
  have sp: "splitOn (CHR 0x0A) ?raw = lines @ [fragment]"
    using assms by (rule splitOn_lines)
  have "readJsonlSafe parse (Inr ?raw) = parseLines parse lines"
  proof (cases "fragment = []")
    case False
    then have "last ?raw = last fragment" by simp
    moreover from False assms(2) have "last fragment \<noteq> CHR 0x0A"
      using last_in_set by metis
    ultimately have "\<not> endsWith ?raw [CHR 0x0A]"
      by (simp add: endsWith_newline)
    then show ?thesis
      by (simp add: readJsonlSafe_def Let_def sp)
  next
    case True
    show ?thesis
    proof (cases "lines = []")
      case l: True
      with True show ?thesis
        by (simp add: readJsonlSafe_def Let_def endsWith_def)
    next
      case False
      then have "?raw \<noteq> [] \<and> last ?raw = CHR 0x0A"
        using True by (cases lines rule: rev_cases) auto
      then have "endsWith ?raw [CHR 0x0A]"
        by (simp add: endsWith_newline)
      then have "endsWith (concat (map (\<lambda>line. line @ [CHR 0x0A]) lines)) [CHR 0x0A]"
        using True by simp
      moreover have "splitOn (CHR 0x0A) (concat (map (\<lambda>line. line @ [CHR 0x0A]) lines)) = lines @ [[]]"
        using sp True by simp
      ultimately show ?thesis
        using True parseLines_append_empty [of parse lines]
        by (simp add: readJsonlSafe_def Let_def)
    qed
  qed
  then show ?thesis by (simp add: parseLines_result)
qed

text \<open>Every file is a list of lines that end in a newline, and a fragment after them.\<close>

lemma file_lines:
  "raw = concat (map (\<lambda>line. line @ [c]) (butlast (splitOn c raw))) @ last (splitOn c raw)"
proof (induction raw)
  case Nil
  then show ?case by simp
next
  case (Cons x raw)
  obtain w ws where w: "splitOn c raw = w # ws"
    using splitOn_nonempty [of c raw] by (cases "splitOn c raw") auto
  show ?case
  proof (cases "x = c")
    case True
    with Cons show ?thesis by simp
  next
    case False
    with Cons w show ?thesis by (cases ws) auto
  qed
qed

theorem tolerant_tail_read_witness:
  "CHR 0x0A \<notin> set ''{\"id\":1}'' \<and> CHR 0x0A \<notin> set ''{\"id\":2}'' \<and> CHR 0x0A \<notin> set ''{\"id\":3''
   \<and> JSON_parse ''{\"id\":1}'' = Some (JObject [(''id'', JNumber ''1'')])
   \<and> JSON_parse ''{\"id\":2}'' = Some (JObject [(''id'', JNumber ''2'')])
   \<and> readJsonlSafe JSON_parse
         (Inr (''{\"id\":1}'' @ [CHR 0x0A] @ ''{\"id\":2}'' @ [CHR 0x0A] @ ''{\"id\":3''))
       = Inr [JObject [(''id'', JNumber ''1'')], JObject [(''id'', JNumber ''2'')]]"
proof -
  have n: "\<forall>line \<in> set [''{\"id\":1}'', ''{\"id\":2}'']. CHR 0x0A \<notin> set line" by simp
  have f: "CHR 0x0A \<notin> set ''{\"id\":3''" by simp
  have 1: "JSON_parse ''{\"id\":1}'' = Some (JObject [(''id'', JNumber ''1'')])" by code_simp
  have 2: "JSON_parse ''{\"id\":2}'' = Some (JObject [(''id'', JNumber ''2'')])" by code_simp
  from tolerant_tail_read [OF n f, of JSON_parse] 1 2
  have "readJsonlSafe JSON_parse
         (Inr (''{\"id\":1}'' @ [CHR 0x0A] @ ''{\"id\":2}'' @ [CHR 0x0A] @ ''{\"id\":3''))
       = Inr [JObject [(''id'', JNumber ''1'')], JObject [(''id'', JNumber ''2'')]]"
    by (simp add: List.map_filter_simps)
  with 1 2 show ?thesis by simp
qed

text \<open>
  The claim as stated, that every line before the last that fails to parse fails the
  call, does not hold for an empty line: \<^verbatim>\<open>JSON.parse\<close> rejects the empty text, and the
  reader skips the line.
\<close>

theorem empty_line_is_skipped:
  "JSON_parse [] = None
   \<and> readJsonlSafe JSON_parse (Inr ([CHR 0x0A] @ ''{\"id\":1}'' @ [CHR 0x0A]))
       = Inr [JObject [(''id'', JNumber ''1'')]]"
  by code_simp


section \<open>Discovery\<close>

text \<open>Explicit values of the environment are used as they are, and no file is read.\<close>

lemma discover_explicit:
  assumes "asString (PI_TEAMD_URL env) \<noteq> []" and "asString (PI_TEAMD_TOKEN env) \<noteq> []"
    and "asString (PI_TEAM_ID env) \<noteq> []"
  shows "discover env reader jsonFields False
       = Some \<lparr>discovery_teamId = asString (PI_TEAM_ID env),
                discovery_agentId = asString (PI_AGENT_ID env),
                discovery_baseUrl = normalizeUrl (asString (PI_TEAMD_URL env)),
                discovery_token = asString (PI_TEAMD_TOKEN env)\<rparr>"
  using assms by (simp add: discover_def Let_def)

text \<open>What the environment leaves out is taken from the token file.\<close>

lemma discover_token_file:
  assumes "PI_TEAMD_URL env = None" and "PI_TEAMD_TOKEN env = None"
    and "asString (PI_TEAM_ID env) \<noteq> []" and "asString (PI_TEAMD_TOKEN_FILE env) \<noteq> []"
    and "parseTokenFile reader jsonFields (asString (PI_TEAMD_TOKEN_FILE env))
           = Some \<lparr>file_token = Some token, file_url = Some url\<rparr>"
    and "token \<noteq> []" and "url \<noteq> []"
  shows "discover env reader jsonFields False
       = Some \<lparr>discovery_teamId = asString (PI_TEAM_ID env),
                discovery_agentId = asString (PI_AGENT_ID env),
                discovery_baseUrl = normalizeUrl url,
                discovery_token = token\<rparr>"
  using assms by (simp add: discover_def Let_def asString_def)

text \<open>Without an agent identifier, a discovery that requires one fails.\<close>

lemma discover_requires_agent:
  "asString (PI_AGENT_ID env) = [] \<Longrightarrow> discover env reader jsonFields True = None"
  by (simp add: discover_def Let_def split: option.splits prod.splits)

text \<open>
  Claim C9. On the environment of the test \<^verbatim>\<open>auto-discovers latest runtime and generates
  agent id\<close> of the repository, which sets the root of the workspaces and the user and
  nothing else, \<^verbatim>\<open>discover\<close> returns \<^verbatim>\<open>null\<close> whatever the files hold and whether an
  agent is required or not: no file is read, no workspace is scanned and no agent
  identifier is made up, and the client answers \<^verbatim>\<open>missing_teamd_discovery\<close> without a
  request. On the environment of the test \<^verbatim>\<open>uses team-specific runtime when team id is
  provided\<close>, which sets the team besides the root, it returns \<^verbatim>\<open>null\<close> as well.
\<close>

theorem discover_does_not_scan:
  "discover \<lparr>PI_TEAMD_URL = None, PI_TEAMD_TOKEN = None, PI_TEAM_ID = None, PI_AGENT_ID = None,
             PI_TEAMD_TOKEN_FILE = None, PI_TEAM_WORKSPACE_ROOT = Some root,
             USER = Some ''tester''\<rparr> reader jsonFields requireAgent = None
   \<and> clientCanWrite \<lparr>PI_TEAMD_URL = None, PI_TEAMD_TOKEN = None, PI_TEAM_ID = None, PI_AGENT_ID = None,
             PI_TEAMD_TOKEN_FILE = None, PI_TEAM_WORKSPACE_ROOT = Some root,
             USER = Some ''tester''\<rparr> reader jsonFields
       = Some \<lparr>allow = False, reason = ''missing_teamd_discovery''\<rparr>
   \<and> discover \<lparr>PI_TEAMD_URL = None, PI_TEAMD_TOKEN = None, PI_TEAM_ID = Some ''alpha'',
             PI_AGENT_ID = None, PI_TEAMD_TOKEN_FILE = None, PI_TEAM_WORKSPACE_ROOT = Some root,
             USER = None\<rparr> reader jsonFields requireAgent = None"
  by (simp add: discover_def clientCanWrite_def asString_def Let_def)

section \<open>Stores built by the operations\<close>

lemma resourcesInvariant_writeTask:
  "[] \<notin> set (task_resources new) \<Longrightarrow> resourcesInvariant st \<Longrightarrow>
   resourcesInvariant (writeTask new st)"
  using set_writeTask unfolding resourcesInvariant_def by blast

lemma resourcesInvariant_cong:
  "taskFiles st' = taskFiles st \<Longrightarrow> resourcesInvariant st' = resourcesInvariant st"
  by (simp add: resourcesInvariant_def)

lemma resourcesInvariant_audit [simp]:
  "resourcesInvariant (appendAuditEvent a ty r now st) = resourcesInvariant st"
  by (simp add: resourcesInvariant_def)

lemma resourcesInvariant_inbox [simp]:
  "resourcesInvariant (snd (appendInboxEvent rs ev now st)) = resourcesInvariant st"
  by (rule resourcesInvariant_cong) (simp add: appendInboxEvent_taskFiles [OF surjective_pairing])

lemma resourcesInvariant_idempotency [simp]:
  "resourcesInvariant (s\<lparr>createTaskIdempotency := x\<rparr>) = resourcesInvariant s"
  by (simp add: resourcesInvariant_def)

lemma uniq_filterBoolean_nonempty: "[] \<notin> set (uniq (filterBoolean xs))"
  by (simp add: uniq_def filterBoolean_def)

lemma resourcesInvariant_read:
  "resourcesInvariant st \<Longrightarrow> readTask st taskId = Some task \<Longrightarrow> [] \<notin> set (task_resources task)"
  using readTask_mem by (auto simp: resourcesInvariant_def)

lemma createTask_resources:
  assumes "resourcesInvariant st"
  shows "resourcesInvariant (snd (createTask tid input key now st))"
  unfolding createTask_def Let_def
  using assms
  by (simp add: resourcesInvariant_writeTask uniq_filterBoolean_nonempty
      split: sum.splits option.splits prod.splits)

lemma claimTask_resources:
  assumes "resourcesInvariant st"
  shows "resourcesInvariant (snd (claimTask tid taskId agentId ttlMs now st))"
  unfolding claimTask_def Let_def loadTaskOrThrow_def
  using assms resourcesInvariant_read [OF assms]
  by (auto simp: resourcesInvariant_writeTask split: sum.splits option.splits)

lemma renewTask_resources:
  assumes "resourcesInvariant st"
  shows "resourcesInvariant (snd (renewTask tid taskId agentId epoch ttlMs now st))"
  unfolding renewTask_def Let_def loadTaskOrThrow_def
  using assms resourcesInvariant_read [OF assms]
  by (auto simp: resourcesInvariant_writeTask split: sum.splits option.splits)

lemma finalizeTask_resources:
  assumes "resourcesInvariant st"
  shows "resourcesInvariant (snd (finalizeTask taskId agentId epoch fstatus now st))"
  unfolding finalizeTask_def Let_def loadTaskOrThrow_def
  using assms resourcesInvariant_read [OF assms]
  by (auto simp: resourcesInvariant_writeTask split: sum.splits option.splits)

lemma unlockLoop_resources:
  assumes "resourcesInvariant st" and "\<forall>t \<in> set ts. [] \<notin> set (task_resources t)"
  shows "resourcesInvariant (unlockLoop c a now cids ts st)"
  using assms
  by (induction ts arbitrary: st) (simp_all add: Let_def resourcesInvariant_writeTask)

lemma unlockDependents_resources:
  assumes "resourcesInvariant st"
  shows "resourcesInvariant (unlockDependents c a now st)"
  unfolding unlockDependents_def Let_def listTasksUnsafe_def
  using assms by (intro unlockLoop_resources) (simp_all add: resourcesInvariant_def)

lemma applyOp_resources:
  assumes "resourcesInvariant st"
  shows "resourcesInvariant (applyOp op st)"
proof (cases op)
  case (CompleteTask tid taskId agentId epoch now)
  show ?thesis
  proof (cases "finalizeTask taskId agentId epoch completed now st")
    case (Pair r st1)
    with finalizeTask_resources [OF assms, of taskId agentId epoch completed now]
    have "resourcesInvariant st1" by simp
    from unlockDependents_resources [OF this] Pair assms this show ?thesis
      by (simp add: CompleteTask completeTask_def split: sum.splits)
  qed
next
  case (FailTask tid taskId agentId epoch now)
  with finalizeTask_resources [OF assms, of taskId agentId epoch failed now] assms show ?thesis
    by (simp add: failTask_def split: sum.splits)
qed (use assms createTask_resources claimTask_resources renewTask_resources
      unlockDependents_resources in simp_all)

text \<open>
  In a store that the task operations have built from the store of a fresh workspace, the
  task files have distinct identifiers and no task has an empty resource.
\<close>

lemma built_store_wellformed:
  "distinct (map task_id (taskFiles (runOps ops (createStore tid ttl dir))))
   \<and> resourcesInvariant (runOps ops (createStore tid ttl dir))"
proof -
  have "resourcesInvariant st \<Longrightarrow> resourcesInvariant (runOps ops st)" for st
    unfolding runOps_def
    by (induction ops arbitrary: st) (simp_all add: applyOp_resources)
  moreover have "resourcesInvariant (createStore tid ttl dir)"
    by (simp add: resourcesInvariant_def createStore_def)
  moreover have "distinct (map task_id (taskFiles (createStore tid ttl dir)))"
    by (simp add: createStore_def)
  ultimately show ?thesis
    using runOps_distinct by blast
qed


end
